theory Spec2Isabelle
  imports Complex_Main "HOL-Library.Word"
begin

section \<open>Data model (market\_data.h, order\_manager.h)\<close>

text \<open>
  The enums and structs of the two headers. \<open>uint32_t\<close> and \<open>uint64_t\<close> are
  \<open>32 word\<close> and \<open>64 word\<close> (arithmetic wraps); \<open>int32_t\<close> is a \<open>32 word\<close>
  read with \<open>sint\<close>. A \<open>double\<close> is modelled by a real number: prices are only
  stored, compared and averaged, and the comparisons of finite doubles are the comparisons
  of the reals they denote (the rounding of the average and NaN are outside the model).
  The \<open>timestamp\<close> fields hold a clock reading that no code path reads back; they are
  left out. Record fields carry a one-letter prefix of their struct, since several structs
  share the member names \<open>symbol\<close>, \<open>side\<close>, \<open>price\<close> and \<open>quantity\<close>; the
  trailing underscore of private members is dropped.
\<close>

datatype OrderType = MARKET | LIMIT | STOP | STOP_LIMIT

datatype OrderSide = BUY | SELL

datatype OrderStatus = PENDING | PARTIAL | FILLED | CANCELLED | REJECTED

record Order =
  o_id :: "64 word"
  o_symbol :: string
  o_side :: OrderSide
  o_type :: OrderType
  o_price :: real
  o_quantity :: "32 word"
  o_filled_quantity :: "32 word"
  o_status :: OrderStatus
  o_trader_id :: string

record PriceLevel =
  l_price :: real
  l_total_quantity :: "32 word"
  l_orders :: "Order list"

text \<open>\<open>PriceLevel(double p = 0.0) : price(p), total_quantity(0)\<close>, as \<open>std::map::operator[]\<close>
  builds it for a missing key.\<close>

definition PriceLevel_default :: PriceLevel where
  "PriceLevel_default = \<lparr>l_price = 0, l_total_quantity = 0, l_orders = []\<rparr>"

text \<open>
  A \<open>std::map<double, PriceLevel, Compare>\<close> is the list of its entries in iteration
  order: descending keys for \<open>bids_\<close> (\<open>std::greater\<close>), ascending keys for \<open>asks_\<close>.
  Keys of a \<open>std::map\<close> are unique.
\<close>

type_synonym levels = "(real \<times> PriceLevel) list"

text \<open>The failures of the code that are results of the model: locking a
  \<open>std::mutex\<close> the calling thread already owns (undefined behaviour, a deadlock in
  practice), reading \<open>orders[0]\<close> of an empty vector, \<open>std::abs\<close> of \<open>INT_MIN\<close>,
  and reading a member that no constructor or assignment initialised.\<close>

datatype error = Deadlock | OutOfBounds | AbsOverflow | UninitialisedRead

record OrderBook =
  b_symbol :: string
  bids :: levels
  asks :: levels
  book_mutex :: bool
  last_price :: real
  best_bid :: real
  best_ask :: real
  sequence_number :: "64 word"

section \<open>OrderBook (market\_data.cpp)\<close>

text \<open>\<open>OrderBook::OrderBook(const std::string& symbol)\<close>; the default constructor is
  the same with the empty symbol.\<close>

definition OrderBook_new :: "string \<Rightarrow> OrderBook" where
  "OrderBook_new symb =
     \<lparr>b_symbol = symb, bids = [], asks = [], book_mutex = False, last_price = 0,
      best_bid = 0, best_ask = 0, sequence_number = 0\<rparr>"

text \<open>\<open>std::lock_guard<std::mutex> lock(book_mutex_)\<close>: \<open>book_mutex\<close> is \<open>True\<close> while
  some call holds the mutex. \<open>std::mutex\<close> is not recursive, so acquiring it while it is
  held never completes in a single thread.\<close>

definition acquire :: "OrderBook \<Rightarrow> error + OrderBook" where
  "acquire b = (if book_mutex b then Inl Deadlock else Inr (b\<lparr>book_mutex := True\<rparr>))"

definition release :: "OrderBook \<Rightarrow> OrderBook" where
  "release b = b\<lparr>book_mutex := False\<rparr>"

text \<open>\<open>auto& level = side_[price]; ...\<close>: \<open>operator[]\<close> finds the entry of key \<open>p\<close> or
  inserts a default level at its place in the order \<open>precedes\<close>; \<open>f\<close> is what the caller then
  does through the reference.\<close>

fun level_ref :: "(real \<Rightarrow> real \<Rightarrow> bool) \<Rightarrow> real \<Rightarrow> (PriceLevel \<Rightarrow> PriceLevel) \<Rightarrow> levels \<Rightarrow> levels" where
  "level_ref precedes p f [] = [(p, f PriceLevel_default)]"
| "level_ref precedes p f ((k, l) # rest) =
     (if k = p then (k, f l) # rest
      else if precedes p k then (p, f PriceLevel_default) # (k, l) # rest
      else (k, l) # level_ref precedes p f rest)"

definition update_best_prices :: "OrderBook \<Rightarrow> OrderBook" where
  "update_best_prices b =
     (let bb = (if bids b \<noteq> [] then fst (hd (bids b)) else 0);
          ba = (if asks b \<noteq> [] then fst (hd (asks b)) else 0)
      in b\<lparr>best_bid := bb, best_ask := ba,
           last_price := (if bb > 0 \<and> ba > 0 then (bb + ba) / 2 else last_price b)\<rparr>)"

text \<open>The body of \<open>add_order\<close> under the lock. The order is copied, the copy gets the
  next book-local id, and it is appended to the level of its price on its side; the level's
  total grows by the order's whole \<open>quantity\<close>. \<open>notify_price_update\<close> only calls the
  observer, which has no access to the private members.\<close>

definition push_order :: "Order \<Rightarrow> real \<Rightarrow> 32 word \<Rightarrow> PriceLevel \<Rightarrow> PriceLevel" where
  "push_order new_order p q level =
     level\<lparr>l_price := p, l_orders := l_orders level @ [new_order],
           l_total_quantity := l_total_quantity level + q\<rparr>"

definition add_order_body :: "Order \<Rightarrow> OrderBook \<Rightarrow> OrderBook" where
  "add_order_body ord b =
     (let seq = sequence_number b + 1;
          new_order = ord\<lparr>o_id := seq\<rparr>;
          b1 = b\<lparr>sequence_number := seq\<rparr>;
          b2 = (if o_side ord = BUY
                then b1\<lparr>bids := level_ref (>) (o_price ord)
                                 (push_order new_order (o_price ord) (o_quantity ord)) (bids b1)\<rparr>
                else b1\<lparr>asks := level_ref (<) (o_price ord)
                                 (push_order new_order (o_price ord) (o_quantity ord)) (asks b1)\<rparr>)
      in update_best_prices b2)"

definition add_order :: "Order \<Rightarrow> OrderBook \<Rightarrow> error + OrderBook" where
  "add_order ord b =
     (case acquire b of Inl e \<Rightarrow> Inl e
      | Inr b1 \<Rightarrow> Inr (release (add_order_body ord b1)))"

text \<open>\<open>std::find_if\<close> for the id in one level's vector, then \<open>erase\<close> of the match: the
  first order with that id and the vector without it.\<close>

fun erase_id :: "64 word \<Rightarrow> Order list \<Rightarrow> (Order \<times> Order list) option" where
  "erase_id i [] = None"
| "erase_id i (x # xs) =
     (if o_id x = i then Some (x, xs)
      else map_option (\<lambda>(y, ys). (y, x # ys)) (erase_id i xs))"

text \<open>The loop \<open>for (auto& [price, level] : side_)\<close> of \<open>cancel_order\<close> and
  \<open>modify_order\<close>: the first level in iteration order that holds the id loses that order
  and the order's whole \<open>quantity\<close>; a level left without orders is erased.\<close>

fun remove_order :: "64 word \<Rightarrow> levels \<Rightarrow> (Order \<times> levels) option" where
  "remove_order i [] = None"
| "remove_order i ((p, l) # rest) =
     (case erase_id i (l_orders l) of
        Some (old, os) \<Rightarrow>
          Some (old,
            if os = [] then rest
            else (p, l\<lparr>l_total_quantity := l_total_quantity l - o_quantity old,
                       l_orders := os\<rparr>) # rest)
      | None \<Rightarrow> map_option (\<lambda>(old, r). (old, (p, l) # r)) (remove_order i rest))"

definition cancel_order_body :: "64 word \<Rightarrow> OrderBook \<Rightarrow> OrderBook" where
  "cancel_order_body i b =
     (case remove_order i (bids b) of
        Some (old, bid_side) \<Rightarrow> update_best_prices (b\<lparr>bids := bid_side\<rparr>)
      | None \<Rightarrow>
         (case remove_order i (asks b) of
            Some (old, ask_side) \<Rightarrow> update_best_prices (b\<lparr>asks := ask_side\<rparr>)
          | None \<Rightarrow> b))"

definition cancel_order :: "64 word \<Rightarrow> OrderBook \<Rightarrow> error + OrderBook" where
  "cancel_order i b =
     (case acquire b of Inl e \<Rightarrow> Inl e
      | Inr b1 \<Rightarrow> Inr (release (cancel_order_body i b1)))"

text \<open>\<open>modify_order\<close> takes the lock, removes the order as \<open>cancel_order\<close> does (without
  refreshing the cached prices) and, when it found one, calls the public \<open>add_order\<close>
  while still holding the lock.\<close>

definition find_and_remove :: "64 word \<Rightarrow> OrderBook \<Rightarrow> (Order \<times> OrderBook) option" where
  "find_and_remove i b =
     (case remove_order i (bids b) of
        Some (old, bid_side) \<Rightarrow> Some (old, b\<lparr>bids := bid_side\<rparr>)
      | None \<Rightarrow>
         (case remove_order i (asks b) of
            Some (old, ask_side) \<Rightarrow> Some (old, b\<lparr>asks := ask_side\<rparr>)
          | None \<Rightarrow> None))"

definition modify_order :: "64 word \<Rightarrow> real \<Rightarrow> 32 word \<Rightarrow> OrderBook \<Rightarrow> error + OrderBook" where
  "modify_order i new_price new_quantity b =
     (case acquire b of Inl e \<Rightarrow> Inl e
      | Inr b1 \<Rightarrow>
         (case find_and_remove i b1 of
            None \<Rightarrow> Inr (release b1)
          | Some (old_order, b2) \<Rightarrow>
             (case add_order (old_order\<lparr>o_price := new_price, o_quantity := new_quantity\<rparr>) b2 of
                Inl e \<Rightarrow> Inl e
              | Inr b3 \<Rightarrow> Inr (release b3))))"

text \<open>The const queries take the lock for the read.\<close>

definition locked_read :: "(OrderBook \<Rightarrow> 'a) \<Rightarrow> OrderBook \<Rightarrow> error + 'a" where
  "locked_read f b = (if book_mutex b then Inl Deadlock else Inr (f b))"

definition get_best_bid :: "OrderBook \<Rightarrow> error + real" where
  "get_best_bid = locked_read best_bid"

definition get_best_ask :: "OrderBook \<Rightarrow> error + real" where
  "get_best_ask = locked_read best_ask"

definition get_last_price :: "OrderBook \<Rightarrow> error + real" where
  "get_last_price = locked_read last_price"

definition get_mid_price :: "OrderBook \<Rightarrow> error + real" where
  "get_mid_price =
     locked_read (\<lambda>b. if best_bid b > 0 \<and> best_ask b > 0
                      then (best_bid b + best_ask b) / 2 else last_price b)"

definition get_bid_levels :: "32 word \<Rightarrow> OrderBook \<Rightarrow> error + PriceLevel list" where
  "get_bid_levels depth = locked_read (\<lambda>b. take (unat depth) (map snd (bids b)))"

definition get_ask_levels :: "32 word \<Rightarrow> OrderBook \<Rightarrow> error + PriceLevel list" where
  "get_ask_levels depth = locked_read (\<lambda>b. take (unat depth) (map snd (asks b)))"

definition set_last_price :: "real \<Rightarrow> OrderBook \<Rightarrow> error + OrderBook" where
  "set_last_price p b =
     (case acquire b of Inl e \<Rightarrow> Inl e
      | Inr b1 \<Rightarrow> Inr (release (update_best_prices (b1\<lparr>last_price := p\<rparr>))))"

definition clear_book :: "OrderBook \<Rightarrow> error + OrderBook" where
  "clear_book b =
     (case acquire b of Inl e \<Rightarrow> Inl e
      | Inr b1 \<Rightarrow> Inr (release (update_best_prices (b1\<lparr>bids := [], asks := []\<rparr>))))"

text \<open>\<open>add_limit_order\<close> (simulation utility): a synthetic order with id 0 and trader
  \<open>SIM\<close>, appended like \<open>add_order\<close> does but without a new sequence number.\<close>

definition add_limit_order :: "real \<Rightarrow> 32 word \<Rightarrow> OrderSide \<Rightarrow> OrderBook \<Rightarrow> error + OrderBook" where
  "add_limit_order p q sd b =
     (case acquire b of Inl e \<Rightarrow> Inl e
      | Inr b1 \<Rightarrow>
         (let synthetic = \<lparr>o_id = 0, o_symbol = b_symbol b1, o_side = sd, o_type = LIMIT,
                           o_price = p, o_quantity = q, o_filled_quantity = 0,
                           o_status = PENDING, o_trader_id = ''SIM''\<rparr>;
              b2 = (if sd = BUY
                    then b1\<lparr>bids := level_ref (>) p (push_order synthetic p q) (bids b1)\<rparr>
                    else b1\<lparr>asks := level_ref (<) p (push_order synthetic p q) (asks b1)\<rparr>)
          in Inr (release (update_best_prices b2))))"

section \<open>MatchingEngine (order\_manager.cpp)\<close>

text \<open>\<open>Execution() : order_id(0), execution_id(0), price(0.0), quantity(0)\<close>: the
  constructor leaves the enum member \<open>side\<close> without a value, so \<open>e_side\<close> is \<open>None\<close>
  until the code assigns it; the two strings are empty.\<close>

record Execution =
  e_order_id :: "64 word"
  e_execution_id :: "64 word"
  e_symbol :: string
  e_side :: "OrderSide option"
  e_price :: real
  e_quantity :: "32 word"
  e_trader_id :: string

definition Execution_default :: Execution where
  "Execution_default =
     \<lparr>e_order_id = 0, e_execution_id = 0, e_symbol = [], e_side = None, e_price = 0,
      e_quantity = 0, e_trader_id = []\<rparr>"

text \<open>The engine's members. \<open>execution_log\<close> and \<open>order_status_log\<close> list, in order,
  the arguments with which the engine reaches the calls of \<open>execution_callback_\<close> and
  \<open>order_status_callback_\<close>. \<open>engine_mutex_\<close> is never acquired twice on a path of the
  functions below and has no field.\<close>

record MatchingEngine =
  order_books :: "string \<rightharpoonup> OrderBook"
  order_queue :: "Order list"
  total_orders_processed :: "64 word"
  total_executions :: "64 word"
  total_volume :: real
  order_id_counter :: "64 word"
  execution_id_counter :: "64 word"
  execution_log :: "Execution list"
  order_status_log :: "Order list"

definition MatchingEngine_new :: MatchingEngine where
  "MatchingEngine_new =
     \<lparr>order_books = Map.empty, order_queue = [], total_orders_processed = 0,
      total_executions = 0, total_volume = 0, order_id_counter = 0,
      execution_id_counter = 0, execution_log = [], order_status_log = []\<rparr>"

text \<open>\<open>order_books_.emplace(symbol, OrderBook(symbol))\<close> keeps an existing book.\<close>

definition add_symbol :: "string \<Rightarrow> MatchingEngine \<Rightarrow> MatchingEngine" where
  "add_symbol symb e =
     (case order_books e symb of
        Some b \<Rightarrow> e
      | None \<Rightarrow> e\<lparr>order_books := (order_books e)(symb \<mapsto> OrderBook_new symb)\<rparr>)"

definition generate_order_id :: "MatchingEngine \<Rightarrow> 64 word \<times> MatchingEngine" where
  "generate_order_id e = (order_id_counter e + 1, e\<lparr>order_id_counter := order_id_counter e + 1\<rparr>)"

definition generate_execution_id :: "MatchingEngine \<Rightarrow> 64 word \<times> MatchingEngine" where
  "generate_execution_id e =
     (execution_id_counter e + 1, e\<lparr>execution_id_counter := execution_id_counter e + 1\<rparr>)"

definition submit_order :: "Order \<Rightarrow> MatchingEngine \<Rightarrow> 64 word \<times> MatchingEngine" where
  "submit_order ord e =
     (let (new_id, e1) = generate_order_id e;
          new_order = ord\<lparr>o_id := new_id\<rparr>
      in (new_id, e1\<lparr>order_queue := order_queue e1 @ [new_order],
                      total_orders_processed := total_orders_processed e1 + 1\<rparr>))"

text \<open>The loop of \<open>MatchingEngine::cancel_order\<close>: pop the front of \<open>order_queue_\<close>
  until it is empty, pushing to \<open>temp_queue\<close> every order but those with the id and the
  trader id; then the queue is \<open>temp_queue\<close> and the result is \<open>found\<close>. Nothing else is
  read or written.\<close>

fun cancel_scan :: "64 word \<Rightarrow> string \<Rightarrow> Order list \<Rightarrow> Order list \<Rightarrow> bool \<Rightarrow> bool \<times> Order list" where
  "cancel_scan i t [] temp_queue found = (found, temp_queue)"
| "cancel_scan i t (x # queue) temp_queue found =
     (if o_id x = i \<and> o_trader_id x = t
      then cancel_scan i t queue temp_queue True
      else cancel_scan i t queue (temp_queue @ [x]) found)"

definition MatchingEngine_cancel_order :: "64 word \<Rightarrow> string \<Rightarrow> MatchingEngine \<Rightarrow> bool \<times> MatchingEngine" where
  "MatchingEngine_cancel_order i t e =
     (let (found, temp_queue) = cancel_scan i t (order_queue e) [] False
      in (found, e\<lparr>order_queue := temp_queue\<rparr>))"

text \<open>\<open>return order_books_[symbol]\<close>: a missing symbol gets a default-constructed book.
  The callers hold the result by reference; \<open>set_order_book\<close> writes their changes back.\<close>

definition get_order_book :: "string \<Rightarrow> MatchingEngine \<Rightarrow> OrderBook \<times> MatchingEngine" where
  "get_order_book symb e =
     (case order_books e symb of
        Some b \<Rightarrow> (b, e)
      | None \<Rightarrow> (OrderBook_new [], e\<lparr>order_books := (order_books e)(symb \<mapsto> OrderBook_new [])\<rparr>))"

definition set_order_book :: "string \<Rightarrow> OrderBook \<Rightarrow> MatchingEngine \<Rightarrow> MatchingEngine" where
  "set_order_book symb b e = e\<lparr>order_books := (order_books e)(symb \<mapsto> b)\<rparr>"

definition record_execution :: "Execution \<Rightarrow> MatchingEngine \<Rightarrow> MatchingEngine" where
  "record_execution ex e =
     e\<lparr>total_executions := total_executions e + 1,
       total_volume := total_volume e + e_price ex * real (unat (e_quantity ex))\<rparr>"

definition execution_callback :: "Execution \<Rightarrow> MatchingEngine \<Rightarrow> MatchingEngine" where
  "execution_callback ex e = e\<lparr>execution_log := execution_log e @ [ex]\<rparr>"

text \<open>Sequencing of calls that may fail: the first failure is the result.\<close>

definition bind_err :: "error + 'a \<Rightarrow> ('a \<Rightarrow> error + 'b) \<Rightarrow> error + 'b" where
  "bind_err m f = (case m of Inl x \<Rightarrow> Inl x | Inr v \<Rightarrow> f v)"

text \<open>One side of \<open>process_market_order\<close>; the two branches of the source differ only in
  the side of the book they read (\<open>get_best_ask\<close> and \<open>get_ask_levels\<close> for a BUY,
  \<open>get_best_bid\<close> and \<open>get_bid_levels\<close> for a SELL).\<close>

definition market_take ::
  "(OrderBook \<Rightarrow> error + real) \<Rightarrow> (32 word \<Rightarrow> OrderBook \<Rightarrow> error + PriceLevel list) \<Rightarrow>
   Order \<Rightarrow> OrderBook \<Rightarrow> MatchingEngine \<Rightarrow> error + MatchingEngine" where
  "market_take get_best get_levels ord order_book e =
     bind_err (get_best order_book) (\<lambda>best.
       if best > 0 then
         bind_err (get_levels 1 order_book) (\<lambda>lvls.
           if lvls \<noteq> [] then
             (let best_level = hd lvls;
                  match_quantity = min (o_quantity ord) (l_total_quantity best_level)
              in if match_quantity > 0 then
                   (let (xid, e1) = generate_execution_id e;
                        execution = Execution_default
                          \<lparr>e_execution_id := xid, e_symbol := o_symbol ord,
                           e_side := Some (o_side ord), e_price := best,
                           e_quantity := match_quantity, e_trader_id := o_trader_id ord,
                           e_order_id := o_id ord\<rparr>;
                        e2 = record_execution execution e1
                    in if l_orders best_level \<noteq> [] then
                         bind_err (cancel_order (o_id (hd (l_orders best_level))) order_book)
                           (\<lambda>book1. Inr (execution_callback execution
                                            (set_order_book (o_symbol ord) book1 e2)))
                       else Inr (execution_callback execution e2))
                 else Inr e)
           else Inr e)
       else Inr e)"

definition process_market_order :: "Order \<Rightarrow> MatchingEngine \<Rightarrow> error + MatchingEngine" where
  "process_market_order ord e0 =
     (let (order_book, e) = get_order_book (o_symbol ord) e0
      in if o_side ord = BUY
         then market_take get_best_ask get_ask_levels ord order_book e
         else market_take get_best_bid get_bid_levels ord order_book e)"

text \<open>\<open>match_orders\<close>: one pass, no loop. The Execution gets an id, the symbol, the
  midpoint price and the quantity; \<open>order_id\<close>, \<open>side\<close> and \<open>trader_id\<close> are not
  assigned. \<open>best_bid_level.orders[0]\<close> and \<open>best_ask_level.orders[0]\<close> are read without
  a check.\<close>

definition first_order_id :: "PriceLevel \<Rightarrow> error + 64 word" where
  "first_order_id level =
     (case l_orders level of [] \<Rightarrow> Inl OutOfBounds | x # xs \<Rightarrow> Inr (o_id x))"

definition match_orders :: "string \<Rightarrow> MatchingEngine \<Rightarrow> error + MatchingEngine" where
  "match_orders symb e0 =
     (let (order_book, e) = get_order_book symb e0 in
      bind_err (get_best_bid order_book) (\<lambda>bb.
      bind_err (get_best_ask order_book) (\<lambda>ba.
        if bb \<le> 0 \<or> ba \<le> 0 then Inr e
        else if bb \<ge> ba then
          bind_err (get_bid_levels 1 order_book) (\<lambda>bid_levels.
          bind_err (get_ask_levels 1 order_book) (\<lambda>ask_levels.
            if bid_levels \<noteq> [] \<and> ask_levels \<noteq> [] then
              (let best_bid_level = hd bid_levels;
                   best_ask_level = hd ask_levels;
                   match_quantity = min (l_total_quantity best_bid_level)
                                        (l_total_quantity best_ask_level);
                   match_price = (bb + ba) / 2
               in if match_quantity > 0 then
                    (let (xid, e1) = generate_execution_id e;
                         execution = Execution_default
                           \<lparr>e_execution_id := xid, e_symbol := symb,
                            e_price := match_price, e_quantity := match_quantity\<rparr>;
                         e2 = record_execution execution e1
                     in bind_err (first_order_id best_bid_level) (\<lambda>bid_id.
                        bind_err (cancel_order bid_id order_book) (\<lambda>book1.
                        bind_err (first_order_id best_ask_level) (\<lambda>ask_id.
                        bind_err (cancel_order ask_id book1) (\<lambda>book2.
                          Inr (execution_callback execution
                                 (set_order_book symb book2 e2)))))))
                  else Inr e)
            else Inr e))
        else Inr e)))"

definition order_status_callback :: "Order \<Rightarrow> MatchingEngine \<Rightarrow> MatchingEngine" where
  "order_status_callback ord e = e\<lparr>order_status_log := order_status_log e @ [ord]\<rparr>"

definition process_order :: "Order \<Rightarrow> MatchingEngine \<Rightarrow> error + MatchingEngine" where
  "process_order ord e0 =
     bind_err
       (if o_type ord = MARKET then process_market_order ord e0
        else (let (order_book, e) = get_order_book (o_symbol ord) e0
              in bind_err (add_order ord order_book) (\<lambda>book1.
                   match_orders (o_symbol ord) (set_order_book (o_symbol ord) book1 e))))
       (\<lambda>e1. Inr (order_status_callback ord e1))"

text \<open>The inner loop of \<open>matching_loop\<close>, \<open>while (!order_queue_.empty())\<close>: the
  front of the queue is popped and processed. \<open>process_order\<close> does not touch the
  queue, so the loop runs once per queued order.\<close>

fun process_queue :: "Order list \<Rightarrow> MatchingEngine \<Rightarrow> error + MatchingEngine" where
  "process_queue [] e = Inr e"
| "process_queue (ord # rest) e =
     bind_err (process_order ord (e\<lparr>order_queue := rest\<rparr>)) (process_queue rest)"

definition matching_loop :: "MatchingEngine \<Rightarrow> error + MatchingEngine" where
  "matching_loop e = process_queue (order_queue e) e"

section \<open>OrderManager (order\_manager.cpp)\<close>

record Position =
  p_symbol :: string
  p_quantity :: "32 word"
  p_avg_price :: real
  p_unrealized_pnl :: real
  p_realized_pnl :: real

definition Position_default :: Position where
  "Position_default =
     \<lparr>p_symbol = [], p_quantity = 0, p_avg_price = 0, p_unrealized_pnl = 0,
      p_realized_pnl = 0\<rparr>"

record RiskLimits =
  r_max_position_value :: real
  r_max_daily_loss :: real
  r_max_drawdown :: real
  r_max_order_size :: "32 word"
  r_max_leverage :: real

definition RiskLimits_default :: RiskLimits where
  "RiskLimits_default =
     \<lparr>r_max_position_value = 1000000, r_max_daily_loss = 50000, r_max_drawdown = 1 / 10,
      r_max_order_size = 10000, r_max_leverage = 2\<rparr>"

text \<open>The manager's members. \<open>positions_\<close> is the list of its entries (the sum of
  \<open>get_total_pnl\<close> runs over them); \<open>manager_execution_log\<close> and \<open>position_log\<close> list
  the arguments of the calls of \<open>execution_callback_\<close> and \<open>position_callback_\<close>.
  \<open>manager_mutex_\<close> is never acquired twice on a path below and has no field.\<close>

record OrderManager =
  matching_engine :: MatchingEngine
  active_orders :: "string \<rightharpoonup> (64 word \<rightharpoonup> Order)"
  positions :: "(string \<times> Position) list"
  risk_limits :: RiskLimits
  daily_pnl :: real
  max_drawdown :: real
  peak_equity :: real
  manager_execution_log :: "Execution list"
  position_log :: "Position list"

definition OrderManager_new :: OrderManager where
  "OrderManager_new =
     \<lparr>matching_engine = MatchingEngine_new, active_orders = Map.empty, positions = [],
      risk_limits = RiskLimits_default, daily_pnl = 0, max_drawdown = 0, peak_equity = 0,
      manager_execution_log = [], position_log = []\<rparr>"

definition set_risk_limits :: "RiskLimits \<Rightarrow> OrderManager \<Rightarrow> OrderManager" where
  "set_risk_limits limits m = m\<lparr>risk_limits := limits\<rparr>"

definition get_position :: "string \<Rightarrow> OrderManager \<Rightarrow> Position" where
  "get_position symb m =
     (case map_of (positions m) symb of Some p \<Rightarrow> p | None \<Rightarrow> Position_default)"

text \<open>\<open>int32_t new_quantity = current_position.quantity; new_quantity += order.quantity\<close>
  (or \<open>-=\<close>): the arithmetic is done in \<open>unsigned\<close> and wraps. \<open>std::abs\<close> of the most
  negative \<open>int\<close> is undefined; any other result is not negative and is compared with
  \<open>max_order_size\<close> as an unsigned value.\<close>

definition check_position_limits :: "Order \<Rightarrow> OrderManager \<Rightarrow> error + bool" where
  "check_position_limits ord m =
     (let current_position = get_position (o_symbol ord) m;
          new_quantity = (if o_side ord = BUY
                          then p_quantity current_position + o_quantity ord
                          else p_quantity current_position - o_quantity ord)
      in if sint new_quantity = - (2 ^ 31) then Inl AbsOverflow
         else Inr (nat \<bar>sint new_quantity\<bar> \<le> unat (r_max_order_size (risk_limits m))))"

definition check_daily_loss_limit :: "Order \<Rightarrow> OrderManager \<Rightarrow> bool" where
  "check_daily_loss_limit ord m = (daily_pnl m > - r_max_daily_loss (risk_limits m))"

definition check_risk_limits :: "Order \<Rightarrow> OrderManager \<Rightarrow> error + bool" where
  "check_risk_limits ord m =
     bind_err (check_position_limits ord m)
       (\<lambda>ok. Inr (ok \<and> check_daily_loss_limit ord m))"

definition place_order :: "Order \<Rightarrow> OrderManager \<Rightarrow> error + (64 word \<times> OrderManager)" where
  "place_order ord m =
     bind_err (check_risk_limits ord m) (\<lambda>ok.
       if \<not> ok then Inr (0, m)
       else
         (let (new_id, eng) = submit_order ord (matching_engine m);
              m1 = m\<lparr>matching_engine := eng\<rparr>
          in if new_id > 0
             then Inr (new_id,
                    m1\<lparr>active_orders := (active_orders m1)
                         (o_trader_id ord \<mapsto>
                            (case active_orders m1 (o_trader_id ord) of
                               None \<Rightarrow> Map.empty | Some t \<Rightarrow> t)(new_id \<mapsto> ord))\<rparr>)
             else Inr (new_id, m1)))"

text \<open>\<open>auto& position = positions_[execution.symbol]\<close> and the writes through it.\<close>

fun position_ref :: "string \<Rightarrow> (Position \<Rightarrow> Position) \<Rightarrow> (string \<times> Position) list \<Rightarrow> (string \<times> Position) list" where
  "position_ref k f [] = [(k, f Position_default)]"
| "position_ref k f ((k', p) # rest) =
     (if k' = k then (k', f p) # rest else (k', p) # position_ref k f rest)"

definition apply_fill :: "Execution \<Rightarrow> OrderSide \<Rightarrow> Position \<Rightarrow> Position" where
  "apply_fill ex sd p =
     (let p1 = p\<lparr>p_symbol := e_symbol ex\<rparr>;
          p2 = (if sd = BUY then p1\<lparr>p_quantity := p_quantity p1 + e_quantity ex\<rparr>
                else p1\<lparr>p_quantity := p_quantity p1 - e_quantity ex\<rparr>)
      in if p_quantity p2 \<noteq> 0 then p2\<lparr>p_avg_price := e_price ex\<rparr> else p2)"

definition update_position :: "Execution \<Rightarrow> OrderManager \<Rightarrow> error + OrderManager" where
  "update_position ex m =
     (case e_side ex of
        None \<Rightarrow> Inl UninitialisedRead
      | Some sd \<Rightarrow>
          (let ps = position_ref (e_symbol ex) (apply_fill ex sd) (positions m)
           in Inr (m\<lparr>positions := ps,
                     position_log := position_log m
                       @ [case map_of ps (e_symbol ex) of Some p \<Rightarrow> p
                          | None \<Rightarrow> Position_default]\<rparr>)))"

definition on_execution :: "Execution \<Rightarrow> OrderManager \<Rightarrow> error + OrderManager" where
  "on_execution ex m =
     bind_err (update_position ex m)
       (\<lambda>m1. Inr (m1\<lparr>manager_execution_log := manager_execution_log m1 @ [ex]\<rparr>))"

definition get_total_pnl :: "OrderManager \<Rightarrow> real" where
  "get_total_pnl m =
     foldl (\<lambda>total (k, p). total + (p_realized_pnl p + p_unrealized_pnl p)) 0 (positions m)"



text \<open>\<open>update_drawdown\<close> is a private member that no function of the class calls.\<close>

definition update_drawdown :: "OrderManager \<Rightarrow> OrderManager" where
  "update_drawdown m =
     (let current_equity = get_total_pnl m;
          m1 = (if current_equity > peak_equity m then m\<lparr>peak_equity := current_equity\<rparr> else m)
      in if peak_equity m1 > 0
         then (let drawdown = (peak_equity m1 - current_equity) / peak_equity m1
               in if drawdown > max_drawdown m1 then m1\<lparr>max_drawdown := drawdown\<rparr> else m1)
         else m1)"

section \<open>Book states and the properties stated about them\<close>

text \<open>The book states that the public operations of \<open>OrderBook\<close> produce from a freshly
  constructed book. An operation that does not return produces no state.\<close>

inductive reachable :: "OrderBook \<Rightarrow> bool" where
  r_new: "reachable (OrderBook_new symb)"
| r_add: "reachable b \<Longrightarrow> add_order ord b = Inr b' \<Longrightarrow> reachable b'"
| r_cancel: "reachable b \<Longrightarrow> cancel_order i b = Inr b' \<Longrightarrow> reachable b'"
| r_modify: "reachable b \<Longrightarrow> modify_order i p q b = Inr b' \<Longrightarrow> reachable b'"
| r_set_last_price: "reachable b \<Longrightarrow> set_last_price p b = Inr b' \<Longrightarrow> reachable b'"
| r_clear: "reachable b \<Longrightarrow> clear_book b = Inr b' \<Longrightarrow> reachable b'"
| r_add_limit: "reachable b \<Longrightarrow> add_limit_order p q sd b = Inr b' \<Longrightarrow> reachable b'"

text \<open>The book of a symbol as \<open>get_order_book\<close> returns it.\<close>

definition book_of :: "string \<Rightarrow> MatchingEngine \<Rightarrow> OrderBook" where
  "book_of symb e = fst (get_order_book symb e)"

definition all_levels :: "OrderBook \<Rightarrow> PriceLevel list" where
  "all_levels b = map snd (bids b) @ map snd (asks b)"

definition resting_orders :: "OrderBook \<Rightarrow> Order list" where
  "resting_orders b = concat (map l_orders (all_levels b))"

definition level_totals :: "levels \<Rightarrow> 32 word list" where
  "level_totals ls = map (\<lambda>(p, l). l_total_quantity l) ls"

text \<open>What the specification calls a book that is not crossed, on the cached prices that
  \<open>get_best_bid\<close> and \<open>get_best_ask\<close> return.\<close>

definition not_crossed :: "OrderBook \<Rightarrow> bool" where
  "not_crossed b = (best_bid b < best_ask b \<or> best_bid b = 0 \<or> best_ask b = 0)"

text \<open>A level whose total is the wrapped sum of the quantities of its orders.\<close>

definition level_sum_ok :: "PriceLevel \<Rightarrow> bool" where
  "level_sum_ok l = (l_total_quantity l = sum_list (map o_quantity (l_orders l)))"

definition remaining_sum :: "PriceLevel \<Rightarrow> 32 word" where
  "remaining_sum l = sum_list (map (\<lambda>x. o_quantity x - o_filled_quantity x) (l_orders l))"

text \<open>What every public operation of the book keeps: at rest the mutex is free, and
  every level has an order and a total that is the wrapped sum of its orders' quantities.\<close>

definition level_inv :: "PriceLevel \<Rightarrow> bool" where
  "level_inv l = (l_orders l \<noteq> [] \<and> level_sum_ok l)"

definition book_inv :: "OrderBook \<Rightarrow> bool" where
  "book_inv b = (\<not> book_mutex b \<and> list_all level_inv (all_levels b))"

text \<open>A book at rest with well-formed sides: the mutex is free, the keys of each side
  are strictly ordered and positive, the cached prices are those of the first levels, no
  level is empty or has total 0, and the id that the next \<open>add_order\<close> will stamp is not
  in use.\<close>

definition caches_ok :: "OrderBook \<Rightarrow> bool" where
  "caches_ok b =
     (best_bid b = (if bids b \<noteq> [] then fst (hd (bids b)) else 0) \<and>
      best_ask b = (if asks b \<noteq> [] then fst (hd (asks b)) else 0))"

definition book_ok :: "OrderBook \<Rightarrow> bool" where
  "book_ok b =
     (\<not> book_mutex b \<and>
      sorted_wrt (>) (map fst (bids b)) \<and> sorted_wrt (<) (map fst (asks b)) \<and>
      list_all (\<lambda>k. k > 0) (map fst (bids b) @ map fst (asks b)) \<and>
      caches_ok b \<and>
      list_all (\<lambda>l. l_orders l \<noteq> [] \<and> l_total_quantity l \<noteq> 0) (all_levels b) \<and>
      list_all (\<lambda>x. o_id x \<noteq> sequence_number b + 1) (resting_orders b))"

text \<open>The structure that every reachable book has: keys strictly ordered on each side
  and cached best prices equal to the first levels' prices. What a reachable book need not
  have, and a book that holds only valid orders has: positive prices, no level with total
  0, and no resting order with the id that the next \<open>add_order\<close> will stamp.\<close>

definition sides_sorted :: "OrderBook \<Rightarrow> bool" where
  "sides_sorted b =
     (sorted_wrt (>) (map fst (bids b)) \<and> sorted_wrt (<) (map fst (asks b)) \<and> caches_ok b)"

definition well_priced :: "OrderBook \<Rightarrow> bool" where
  "well_priced b =
     (list_all (\<lambda>k. k > 0) (map fst (bids b) @ map fst (asks b)) \<and>
      list_all (\<lambda>l. l_total_quantity l \<noteq> 0) (all_levels b) \<and>
      list_all (\<lambda>x. o_id x \<noteq> sequence_number b + 1) (resting_orders b))"

text \<open>The sides of a book that is not crossed; the conditions under which
  \<open>match_orders\<close> reaches its two \<open>cancel_order\<close> calls, and the book they leave.\<close>

definition uncrossed_sides :: "levels \<Rightarrow> levels \<Rightarrow> bool" where
  "uncrossed_sides bs aks = (bs = [] \<or> aks = [] \<or> fst (hd bs) < fst (hd aks))"

definition cross_result :: "OrderBook \<Rightarrow> OrderBook" where
  "cross_result b =
     cancel_order_body (o_id (hd (l_orders (snd (hd (asks b))))))
       (cancel_order_body (o_id (hd (l_orders (snd (hd (bids b)))))) b)"

definition cross_ready :: "OrderBook \<Rightarrow> bool" where
  "cross_ready b =
     (bids b \<noteq> [] \<and> asks b \<noteq> [] \<and>
      l_orders (snd (hd (bids b))) \<noteq> [] \<and> l_orders (snd (hd (asks b))) \<noteq> [] \<and>
      l_total_quantity (snd (hd (bids b))) \<noteq> 0 \<and> l_total_quantity (snd (hd (asks b))) \<noteq> 0)"

section \<open>Scenarios\<close>

definition limit_order :: "OrderSide \<Rightarrow> real \<Rightarrow> 32 word \<Rightarrow> string \<Rightarrow> Order" where
  "limit_order sd p q t =
     \<lparr>o_id = 0, o_symbol = ''AAPL'', o_side = sd, o_type = LIMIT, o_price = p,
      o_quantity = q, o_filled_quantity = 0, o_status = PENDING, o_trader_id = t\<rparr>"

definition market_order :: "OrderSide \<Rightarrow> 32 word \<Rightarrow> string \<Rightarrow> Order" where
  "market_order sd q t = (limit_order sd 0 q t)\<lparr>o_type := MARKET\<rparr>"

text \<open>A book with two bids at 150 (100 and 50) and one ask at 151 (30).\<close>

definition example_book :: OrderBook where
  "example_book =
     add_order_body (limit_order SELL 151 30 ''C'')
       (add_order_body (limit_order BUY 150 50 ''B'')
          (add_order_body (limit_order BUY 150 100 ''A'') (OrderBook_new ''AAPL'')))"




definition crossed_book :: OrderBook where
  "crossed_book =
     add_order_body (limit_order SELL 150 100 ''B'')
       (add_order_body (limit_order BUY 150 100 ''A'') (OrderBook_new ''AAPL''))"

definition crossed_engine :: MatchingEngine where
  "crossed_engine = set_order_book ''AAPL'' crossed_book MatchingEngine_new"

text \<open>The example book in an engine, and a SELL of 40 at 149 that crosses its bids; a
  book on which \<open>add_order\<close> alone has put two bids at 10 and two asks at 9.\<close>

definition example_engine :: MatchingEngine where
  "example_engine = set_order_book ''AAPL'' example_book MatchingEngine_new"

definition crossing_sell :: Order where
  "crossing_sell = (limit_order SELL 149 40 ''D'')\<lparr>o_id := 4\<rparr>"

definition doubly_crossed_book :: OrderBook where
  "doubly_crossed_book =
     add_order_body (limit_order SELL 9 5 ''D'')
       (add_order_body (limit_order SELL 9 5 ''C'')
          (add_order_body (limit_order BUY 10 5 ''B'')
             (add_order_body (limit_order BUY 10 5 ''A'') (OrderBook_new ''AAPL''))))"

text \<open>An engine with the symbol AAPL to which the orders are submitted in turn and whose
  worker then empties the queue.\<close>

fun submit_all :: "Order list \<Rightarrow> MatchingEngine \<Rightarrow> MatchingEngine" where
  "submit_all [] e = e"
| "submit_all (ord # rest) e = submit_all rest (snd (submit_order ord e))"

definition engine_after :: "Order list \<Rightarrow> error + MatchingEngine" where
  "engine_after orders = matching_loop (submit_all orders (add_symbol ''AAPL'' MatchingEngine_new))"

text \<open>The limits of \<open>test_risk_limit_violations\<close> (tests/edge\_case\_tests.cpp) and its
  order \<open>big_value\<close>, of which the test asserts \<open>place_order(big_value) == 0\<close>.\<close>

definition test_limits :: RiskLimits where
  "test_limits = RiskLimits_default
     \<lparr>r_max_order_size := 1000, r_max_position_value := 10000, r_max_daily_loss := 1000\<rparr>"

definition test_manager :: OrderManager where
  "test_manager =
     set_risk_limits test_limits
       (OrderManager_new\<lparr>matching_engine := add_symbol ''AAPL'' MatchingEngine_new\<rparr>)"

definition big_value :: Order where
  "big_value = limit_order BUY 1000 20 ''RISK''"


section \<open>The book operations at rest\<close>

text \<open>With the mutex free, \<open>add_order\<close> and \<open>cancel_order\<close> return what their bodies
  compute; \<open>modify_order\<close> returns only when it finds no order.\<close>

lemma update_best_prices_mutex [simp]:
  "book_mutex (update_best_prices b) = book_mutex b"
  by (simp add: update_best_prices_def Let_def)

lemma add_order_body_mutex [simp]:
  "book_mutex (add_order_body ord b) = book_mutex b"
  by (simp add: add_order_body_def Let_def)

lemma cancel_order_body_mutex [simp]:
  "book_mutex (cancel_order_body i b) = book_mutex b"
  by (simp add: cancel_order_body_def split: option.splits)

lemma mutex_False_id: "\<not> book_mutex b \<Longrightarrow> b\<lparr>book_mutex := False\<rparr> = b"
  by (cases b) simp

lemma add_order_body_held:
  "add_order_body ord (b\<lparr>book_mutex := x\<rparr>) = (add_order_body ord b)\<lparr>book_mutex := x\<rparr>"
  by (simp add: add_order_body_def update_best_prices_def Let_def)

lemma cancel_order_body_held:
  "cancel_order_body i (b\<lparr>book_mutex := x\<rparr>) = (cancel_order_body i b)\<lparr>book_mutex := x\<rparr>"
  by (simp add: cancel_order_body_def update_best_prices_def Let_def split: option.splits)

lemma add_order_rest:
  "\<not> book_mutex b \<Longrightarrow> add_order ord b = Inr (add_order_body ord b)"
  by (simp add: add_order_def acquire_def release_def add_order_body_held mutex_False_id)

lemma cancel_order_rest:
  "\<not> book_mutex b \<Longrightarrow> cancel_order i b = Inr (cancel_order_body i b)"
  by (simp add: cancel_order_def acquire_def release_def cancel_order_body_held mutex_False_id)

lemma add_order_held: "book_mutex b \<Longrightarrow> add_order ord b = Inl Deadlock"
  by (simp add: add_order_def acquire_def)

lemma find_and_remove_held:
  "find_and_remove i (b\<lparr>book_mutex := x\<rparr>) =
     map_option (\<lambda>(old, b'). (old, b'\<lparr>book_mutex := x\<rparr>)) (find_and_remove i b)"
  by (simp add: find_and_remove_def split: option.splits)

lemma modify_order_rest:
  "\<not> book_mutex b \<Longrightarrow>
   modify_order i p q b = (case find_and_remove i b of None \<Rightarrow> Inr b | Some r \<Rightarrow> Inl Deadlock)"
  by (auto simp: modify_order_def acquire_def release_def find_and_remove_held add_order_held
                 mutex_False_id split: option.splits)

lemma update_best_prices_sides [simp]:
  "bids (update_best_prices b) = bids b" "asks (update_best_prices b) = asks b"
  "sequence_number (update_best_prices b) = sequence_number b"
  by (simp_all add: update_best_prices_def Let_def)

lemma set_last_price_result:
  "set_last_price p b = Inr b' \<Longrightarrow>
   \<not> book_mutex b' \<and> bids b' = bids b \<and> asks b' = asks b"
  by (auto simp: set_last_price_def acquire_def release_def split: if_splits)

lemma clear_book_result:
  "clear_book b = Inr b' \<Longrightarrow> \<not> book_mutex b' \<and> bids b' = [] \<and> asks b' = []"
  by (auto simp: clear_book_def acquire_def release_def split: if_splits)

lemma add_order_result:
  "add_order ord b = Inr b' \<Longrightarrow> \<not> book_mutex b \<and> b' = add_order_body ord b"
  by (cases "book_mutex b") (simp_all add: add_order_held add_order_rest)

lemma cancel_order_result:
  "cancel_order i b = Inr b' \<Longrightarrow> \<not> book_mutex b \<and> b' = cancel_order_body i b"
  by (cases "book_mutex b") (simp_all add: cancel_order_rest, simp add: cancel_order_def acquire_def)

lemma modify_order_result:
  "modify_order i p q b = Inr b' \<Longrightarrow> \<not> book_mutex b \<and> b' = b \<and> find_and_remove i b = None"
  by (cases "book_mutex b")
     (auto simp: modify_order_rest split: option.splits, simp add: modify_order_def acquire_def)

section \<open>Invariants of the reachable books\<close>

lemma level_ref_all:
  assumes "list_all Q (map snd ls)" and "\<And>l. Q l \<Longrightarrow> Q (f l)" and "Q (f PriceLevel_default)"
  shows "list_all Q (map snd (level_ref pr p f ls))"
  using assms(1)
  by (induction ls) (auto simp: assms(2,3))

lemma level_ref_push_inv:
  "list_all level_inv (map snd ls) \<Longrightarrow> o_quantity x = q \<Longrightarrow>
   list_all level_inv (map snd (level_ref pr p (push_order x p q) ls))"
  by (rule level_ref_all)
     (auto simp: level_inv_def level_sum_ok_def push_order_def PriceLevel_default_def)

lemma erase_id_sum:
  "erase_id i os = Some (old, os') \<Longrightarrow>
   sum_list (map o_quantity os) = o_quantity old + sum_list (map o_quantity os')"
  by (induction os arbitrary: os') (auto split: if_splits)

lemma remove_order_inv:
  "remove_order i ls = Some (old, ls') \<Longrightarrow> list_all level_inv (map snd ls) \<Longrightarrow>
   list_all level_inv (map snd ls')"
proof (induction ls arbitrary: ls')
  case Nil
  then show ?case by simp
next
  case (Cons a ls)
  obtain p l where a: "a = (p, l)" by (cases a)
  show ?case
  proof (cases "erase_id i (l_orders l)")
    case None
    with Cons a show ?thesis by auto
  next
    case (Some r)
    obtain x os where r: "r = (x, os)" by (cases r)
    from Some r have "sum_list (map o_quantity (l_orders l)) = o_quantity x + sum_list (map o_quantity os)"
      by (simp add: erase_id_sum)
    with Cons.prems a Some r show ?thesis
      by (auto simp: level_inv_def level_sum_ok_def split: if_splits)
  qed
qed

lemma add_order_body_inv: "book_inv b \<Longrightarrow> book_inv (add_order_body ord b)"
  by (auto simp: book_inv_def all_levels_def add_order_body_def Let_def level_ref_push_inv)

lemma cancel_order_body_inv: "book_inv b \<Longrightarrow> book_inv (cancel_order_body i b)"
  by (auto simp: book_inv_def all_levels_def cancel_order_body_def
           dest: remove_order_inv split: option.splits)

lemma add_limit_order_sides:
  "add_limit_order p q sd b = Inr b' \<Longrightarrow>
   \<not> book_mutex b' \<and>
   bids b' = (if sd = BUY
              then level_ref (>) p (push_order
                     \<lparr>o_id = 0, o_symbol = b_symbol b, o_side = sd, o_type = LIMIT,
                      o_price = p, o_quantity = q, o_filled_quantity = 0,
                      o_status = PENDING, o_trader_id = ''SIM''\<rparr> p q) (bids b)
              else bids b) \<and>
   asks b' = (if sd = BUY then asks b
              else level_ref (<) p (push_order
                     \<lparr>o_id = 0, o_symbol = b_symbol b, o_side = sd, o_type = LIMIT,
                      o_price = p, o_quantity = q, o_filled_quantity = 0,
                      o_status = PENDING, o_trader_id = ''SIM''\<rparr> p q) (asks b))"
  by (auto simp: add_limit_order_def acquire_def release_def Let_def split: if_splits)

lemma reachable_inv: "reachable b \<Longrightarrow> book_inv b"
proof (induction rule: reachable.induct)
  case (r_new symb)
  then show ?case by (simp add: book_inv_def OrderBook_new_def all_levels_def)
next
  case (r_add b ord b')
  then show ?case by (auto dest!: add_order_result simp: add_order_body_inv)
next
  case (r_cancel b i b')
  then show ?case by (auto dest!: cancel_order_result simp: cancel_order_body_inv)
next
  case (r_modify b i p q b')
  then show ?case by (auto dest!: modify_order_result)
next
  case (r_set_last_price b p b')
  then show ?case by (auto dest!: set_last_price_result simp: book_inv_def all_levels_def)
next
  case (r_clear b b')
  then show ?case by (auto dest!: clear_book_result simp: book_inv_def all_levels_def)
next
  case (r_add_limit b p q sd b')
  then show ?case
    by (auto dest!: add_limit_order_sides simp: book_inv_def all_levels_def level_ref_push_inv
             split: if_splits)
qed


lemma unat_sum_list:
  "sum_list (map unat ws) < 2 ^ 32 \<Longrightarrow> unat (sum_list ws) = sum_list (map unat ws)"
  for ws :: "32 word list"
proof (induction ws)
  case Nil
  then show ?case by simp
next
  case (Cons a ws)
  then have "unat (sum_list ws) = sum_list (map unat ws)" by simp
  moreover have "unat (a + sum_list ws) = (unat a + unat (sum_list ws)) mod 2 ^ 32"
    by (simp add: unat_word_ariths)
  ultimately show ?case using Cons.prems by simp
qed

lemma level_remaining:
  "level_sum_ok l \<Longrightarrow> list_all (\<lambda>x. o_filled_quantity x = 0) (l_orders l) \<Longrightarrow>
   l_total_quantity l = remaining_sum l"
proof -
  assume a: "level_sum_ok l" and f: "list_all (\<lambda>x. o_filled_quantity x = 0) (l_orders l)"
  from f have m: "map (\<lambda>x. o_quantity x - o_filled_quantity x) (l_orders l) = map o_quantity (l_orders l)"
    by (simp add: list_all_iff)
  show ?thesis unfolding remaining_sum_def m using a by (simp add: level_sum_ok_def)
qed

lemma level_positive:
  assumes "level_inv l" and "list_all (\<lambda>x. o_quantity x \<noteq> 0) (l_orders l)"
    and "sum_list (map (\<lambda>x. unat (o_quantity x)) (l_orders l)) < 2 ^ 32"
  shows "0 < l_total_quantity l"
proof -
  obtain x xs where xs: "l_orders l = x # xs" using assms(1) by (cases "l_orders l") (auto simp: level_inv_def)
  have "unat (sum_list (map o_quantity (l_orders l))) = sum_list (map unat (map o_quantity (l_orders l)))"
    using assms(3) by (intro unat_sum_list) (simp add: comp_def)
  moreover have "0 < unat (o_quantity x)" using assms(2) xs by (simp add: unat_gt_0)
  ultimately have "0 < unat (l_total_quantity l)"
    using assms(1) xs by (simp add: level_inv_def level_sum_ok_def)
  then show ?thesis by (simp add: unat_gt_0 word_greater_zero_iff)
qed

lemma reachable_add_order_body:
  "reachable b \<Longrightarrow> reachable (add_order_body ord b)"
  using reachable_inv [of b] r_add [of b ord "add_order_body ord b"]
  by (simp add: book_inv_def add_order_rest)

lemma reachable_example_book: "reachable example_book"
  unfolding example_book_def by (intro reachable_add_order_body r_new)

lemma example_book_totals: "level_totals (bids example_book) = [150] \<and> level_totals (asks example_book) = [30]"
    by code_simp


lemma example_book_orders: "list_all (\<lambda>l. list_all (\<lambda>x. o_filled_quantity x = 0) (l_orders l) \<and>
                         list_all (\<lambda>x. o_quantity x \<noteq> 0) (l_orders l))
             (all_levels example_book)"
    by code_simp

lemma example_book_sums: "list_all (\<lambda>l. sum_list (map (\<lambda>x. unat (o_quantity x)) (l_orders l)) < 1000)
             (all_levels example_book)"
    by code_simp

text \<open>C7, as stated: in every book reachable through \<open>add_order\<close>, \<open>cancel_order\<close>
  and \<open>modify_order\<close>, every level has \<open>total_quantity > 0\<close>. After \<open>add_order\<close> of an
  order of quantity 0 on a new book, the book has a bid level whose total is 0.\<close>

theorem zero_quantity_level:
  "reachable (projr (add_order (limit_order BUY 150 0 ''A'') (OrderBook_new ''AAPL''))) \<and>
   level_totals (bids (projr (add_order (limit_order BUY 150 0 ''A'') (OrderBook_new ''AAPL'')))) = [0]"
proof -
  have "add_order (limit_order BUY 150 0 ''A'') (OrderBook_new ''AAPL'')
        = Inr (add_order_body (limit_order BUY 150 0 ''A'') (OrderBook_new ''AAPL''))"
    by (simp add: add_order_rest OrderBook_new_def)
  moreover have "level_totals (bids (add_order_body (limit_order BUY 150 0 ''A'') (OrderBook_new ''AAPL''))) = [0]"
    by code_simp
  ultimately show ?thesis by (simp add: reachable_add_order_body r_new)
qed

text \<open>C7, amended: in every book reachable through the public operations, every level
  holds at least one order and its \<open>total_quantity\<close> is the sum, modulo \<open>2^32\<close>, of the
  \<open>quantity\<close> of its orders. It equals the sum of \<open>quantity - filled_quantity\<close> when
  the \<open>filled_quantity\<close> of each of its orders is 0 (no operation of the book or the
  engine writes that member), and it is positive when the quantities of its orders are
  not 0 and their sum is below \<open>2^32\<close>.\<close>

theorem reachable_level_totals:
  "reachable b \<Longrightarrow>
   list_all (\<lambda>l. l_orders l \<noteq> [] \<and>
                 l_total_quantity l = sum_list (map o_quantity (l_orders l)) \<and>
                 (list_all (\<lambda>x. o_filled_quantity x = 0) (l_orders l)
                    \<longrightarrow> l_total_quantity l = remaining_sum l) \<and>
                 (list_all (\<lambda>x. o_quantity x \<noteq> 0) (l_orders l) \<and>
                  sum_list (map (\<lambda>x. unat (o_quantity x)) (l_orders l)) < 2 ^ 32
                    \<longrightarrow> 0 < l_total_quantity l))
            (all_levels b)"
proof -
  assume "reachable b"
  then have "list_all level_inv (all_levels b)" using reachable_inv by (simp add: book_inv_def)
  then show ?thesis
    by (rule list.pred_mono_strong)
       (auto simp: level_inv_def level_remaining level_positive, simp add: level_sum_ok_def)
qed



text \<open>C7, amended, on the example book: it is reachable, its orders have quantities
  100, 50 and 30 and \<open>filled_quantity\<close> 0, and its levels have the totals 150 and 30.\<close>

theorem reachable_level_totals_witness:
  "reachable example_book \<and>
   level_totals (bids example_book) = [150] \<and> level_totals (asks example_book) = [30] \<and>
   list_all (\<lambda>l. 0 < l_total_quantity l \<and> l_total_quantity l = remaining_sum l)
     (all_levels example_book)"
proof -
  have r: "reachable example_book" by (rule reachable_example_book)
  have "list_all (\<lambda>l. sum_list (map (\<lambda>x. unat (o_quantity x)) (l_orders l)) < 2 ^ 32)
          (all_levels example_book)"
    using example_book_sums by (rule list.pred_mono_strong) simp
  with reachable_level_totals [OF r] example_book_orders
  have "list_all (\<lambda>l. 0 < l_total_quantity l \<and> l_total_quantity l = remaining_sum l)
          (all_levels example_book)"
    unfolding list_all_iff by blast
  with r example_book_totals show ?thesis by blast
qed

section \<open>The engine on a book at rest\<close>

lemma getters_rest:
  "\<not> book_mutex b \<Longrightarrow> get_best_bid b = Inr (best_bid b)"
  "\<not> book_mutex b \<Longrightarrow> get_best_ask b = Inr (best_ask b)"
  "\<not> book_mutex b \<Longrightarrow> get_bid_levels d b = Inr (take (unat d) (map snd (bids b)))"
  "\<not> book_mutex b \<Longrightarrow> get_ask_levels d b = Inr (take (unat d) (map snd (asks b)))"
  by (simp_all add: get_best_bid_def get_best_ask_def get_bid_levels_def get_ask_levels_def
                    locked_read_def)

lemma first_order_id_nonempty:
  "l_orders l \<noteq> [] \<Longrightarrow> first_order_id l = Inr (o_id (hd (l_orders l)))"
  by (cases "l_orders l") (simp_all add: first_order_id_def)

lemma bind_err_Inr [simp]: "bind_err (Inr v) f = f v"
  by (simp add: bind_err_def)

lemma bind_err_Inl [simp]: "bind_err (Inl x) f = Inl x"
  by (simp add: bind_err_def)

lemma take_1_levels: "take (unat (1::32 word)) (map snd ls) = (case ls of [] \<Rightarrow> [] | x # xs \<Rightarrow> [snd x])"
  by (cases ls) simp_all

lemma match_orders_returns:
  assumes "book_inv (book_of symb e)"
  shows "\<exists>e'. match_orders symb e = Inr e'"
proof -
  obtain b e1 where g: "get_order_book symb e = (b, e1)" by (cases "get_order_book symb e")
  then have b: "b = book_of symb e" by (simp add: book_of_def)
  from assms b have m: "\<not> book_mutex b"
    and lv: "list_all (\<lambda>l. l_orders l \<noteq> []) (map snd (bids b) @ map snd (asks b))"
    by (auto simp: book_inv_def all_levels_def level_inv_def list_all_iff)
  show ?thesis
  proof (cases "bids b")
    case Nil
    then show ?thesis using m
      by (simp add: match_orders_def g getters_rest take_1_levels)
  next
    case bc: (Cons x xs)
    show ?thesis
    proof (cases "asks b")
      case Nil
      then show ?thesis using m bc
        by (simp add: match_orders_def g getters_rest take_1_levels)
    next
      case ac: (Cons y ys)
      from lv bc ac have "l_orders (snd x) \<noteq> []" "l_orders (snd y) \<noteq> []" by simp_all
      then show ?thesis using m bc ac
        by (simp add: match_orders_def g getters_rest take_1_levels first_order_id_nonempty
                      cancel_order_rest Let_def split: prod.splits)
    qed
  qed
qed

lemma erase_id_subset: "erase_id i os = Some (old, os') \<Longrightarrow> set os' \<subseteq> set os"
  by (induction os arbitrary: os') (auto split: if_splits)

lemma remove_order_subset:
  "remove_order i ls = Some (old, ls') \<Longrightarrow>
   set (concat (map l_orders (map snd ls'))) \<subseteq> set (concat (map l_orders (map snd ls)))"
proof (induction ls arbitrary: ls')
  case Nil
  then show ?case by simp
next
  case (Cons a ls)
  obtain p l where a: "a = (p, l)" by (cases a)
  show ?case
  proof (cases "erase_id i (l_orders l)")
    case None
    with Cons.prems a obtain r where r: "remove_order i ls = Some (old, r)" "ls' = (p, l) # r"
      by auto
    from Cons.IH [OF r(1)] r(2) a show ?thesis by auto
  next
    case (Some r)
    obtain x os where r: "r = (x, os)" by (cases r)
    from Some r have "set os \<subseteq> set (l_orders l)" by (simp add: erase_id_subset)
    with Cons.prems a Some r show ?thesis by (force split: if_splits)
  qed
qed

lemma cancel_order_body_resting:
  "set (resting_orders (cancel_order_body i b)) \<subseteq> set (resting_orders b)"
proof (cases "remove_order i (bids b)")
  case None
  show ?thesis
  proof (cases "remove_order i (asks b)")
    case n: None
    with None show ?thesis by (simp add: cancel_order_body_def)
  next
    case (Some r)
    obtain old ls where "r = (old, ls)" by (cases r)
    with None Some remove_order_subset [of i "asks b" old ls] show ?thesis
      by (auto simp: cancel_order_body_def resting_orders_def all_levels_def)
  qed
next
  case (Some r)
  obtain old ls where "r = (old, ls)" by (cases r)
  with Some remove_order_subset [of i "bids b" old ls] show ?thesis
    by (auto simp: cancel_order_body_def resting_orders_def all_levels_def)
qed

lemma cancel_order_body_seq [simp]:
  "sequence_number (cancel_order_body i b) = sequence_number b"
  by (simp add: cancel_order_body_def split: option.splits)

lemma book_of_set_order_book [simp]: "book_of symb (set_order_book symb b e) = b"
  by (simp add: book_of_def get_order_book_def set_order_book_def)

lemma book_of_snd_get_order_book [simp]:
  "book_of symb (snd (get_order_book symb e)) = book_of symb e"
  by (simp add: book_of_def get_order_book_def split: option.splits)

lemma book_of_engine_updates [simp]:
  "book_of symb (execution_callback ex e) = book_of symb e"
  "book_of symb (record_execution ex e) = book_of symb e"
  "book_of symb (snd (generate_execution_id e)) = book_of symb e"
  "book_of symb (order_status_callback ord e) = book_of symb e"
  by (simp_all add: book_of_def get_order_book_def execution_callback_def record_execution_def
                    generate_execution_id_def order_status_callback_def split: option.splits)

lemma execution_log_updates [simp]:
  "execution_log (execution_callback ex e) = execution_log e @ [ex]"
  "execution_log (record_execution ex e) = execution_log e"
  "execution_log (snd (generate_execution_id e)) = execution_log e"
  "execution_log (set_order_book symb b e) = execution_log e"
  "execution_log (snd (get_order_book symb e)) = execution_log e"
  "execution_id_counter (snd (get_order_book symb e)) = execution_id_counter e"
  "fst (generate_execution_id e) = execution_id_counter e + 1"
  by (simp_all add: execution_callback_def record_execution_def generate_execution_id_def
                    set_order_book_def get_order_book_def split: option.splits)

lemma market_take_rest:
  assumes m: "\<not> book_mutex b"
    and gb: "get_best b = Inr best" and gl: "get_levels 1 b = Inr (take 1 (map snd opp))"
    and opp: "opp = bids b \<or> opp = asks b"
  shows "\<exists>e'. market_take get_best get_levels ord b e = Inr e' \<and>
     execution_log e' = execution_log e @
       (if 0 < best \<and> opp \<noteq> [] \<and> 0 < min (o_quantity ord) (l_total_quantity (snd (hd opp)))
        then [\<lparr>e_order_id = o_id ord, e_execution_id = execution_id_counter e + 1,
               e_symbol = o_symbol ord, e_side = Some (o_side ord), e_price = best,
               e_quantity = min (o_quantity ord) (l_total_quantity (snd (hd opp))),
               e_trader_id = o_trader_id ord\<rparr>]
        else []) \<and>
     (book_of (o_symbol ord) e' = book_of (o_symbol ord) e \<or>
      (\<exists>i. book_of (o_symbol ord) e' = cancel_order_body i b))"
proof (cases opp)
  case Nil
  then show ?thesis using m gb gl by (simp add: market_take_def)
next
  case (Cons x xs)
  then show ?thesis using m gb gl
    by (cases "l_orders (snd x)")
       (auto simp: market_take_def Let_def cancel_order_rest Execution_default_def
                   split_beta)
qed


lemma unat_one_32 [simp]: "unat (1::32 word) = 1"
  by simp

lemma market_side_rest:
  assumes m: "\<not> book_mutex b" and g: "get_order_book (o_symbol ord) e = (b, e1)"
    and gb: "get_best b = Inr best" and gl: "get_levels 1 b = Inr (take 1 (map snd opp))"
    and opp: "opp = bids b \<or> opp = asks b"
  shows "\<exists>e'. market_take get_best get_levels ord b e1 = Inr e' \<and>
     execution_log e' = execution_log e @
       (if 0 < best \<and> opp \<noteq> [] \<and> 0 < min (o_quantity ord) (l_total_quantity (snd (hd opp)))
        then [\<lparr>e_order_id = o_id ord, e_execution_id = execution_id_counter e + 1,
               e_symbol = o_symbol ord, e_side = Some (o_side ord), e_price = best,
               e_quantity = min (o_quantity ord) (l_total_quantity (snd (hd opp))),
               e_trader_id = o_trader_id ord\<rparr>]
        else []) \<and>
     sequence_number (book_of (o_symbol ord) e') = sequence_number b \<and>
     set (resting_orders (book_of (o_symbol ord) e')) \<subseteq> set (resting_orders b)"
proof -
  from g have e1: "e1 = snd (get_order_book (o_symbol ord) e)"
    by simp
  have "book_of (o_symbol ord) e = b" using g by (simp add: book_of_def)
  then have bk: "book_of (o_symbol ord) e1 = b" unfolding e1 by simp
  from market_take_rest [where get_best = get_best and get_levels = get_levels and b = b
      and best = best and opp = opp and ord = ord and e = e1, OF m gb gl opp]
  obtain e' where 1: "market_take get_best get_levels ord b e1 = Inr e'"
    and 2: "execution_log e' = execution_log e1 @
       (if 0 < best \<and> opp \<noteq> [] \<and> 0 < min (o_quantity ord) (l_total_quantity (snd (hd opp)))
        then [\<lparr>e_order_id = o_id ord, e_execution_id = execution_id_counter e1 + 1,
               e_symbol = o_symbol ord, e_side = Some (o_side ord), e_price = best,
               e_quantity = min (o_quantity ord) (l_total_quantity (snd (hd opp))),
               e_trader_id = o_trader_id ord\<rparr>]
        else [])"
    and 3: "book_of (o_symbol ord) e' = book_of (o_symbol ord) e1 \<or>
            (\<exists>i. book_of (o_symbol ord) e' = cancel_order_body i b)"
    by blast
  from 3 consider (same) "book_of (o_symbol ord) e' = b"
    | (cancelled) i where "book_of (o_symbol ord) e' = cancel_order_body i b"
    using bk by auto
  then have 45: "sequence_number (book_of (o_symbol ord) e') = sequence_number b \<and>
      set (resting_orders (book_of (o_symbol ord) e')) \<subseteq> set (resting_orders b)"
  proof cases
    case same
    then show ?thesis by simp
  next
    case cancelled
    then show ?thesis using cancel_order_body_resting [of i b] by simp
  qed
  then have 4: "sequence_number (book_of (o_symbol ord) e') = sequence_number b"
    and 5: "set (resting_orders (book_of (o_symbol ord) e')) \<subseteq> set (resting_orders b)"
    by simp_all
  from 2 have 6: "execution_log e' = execution_log e @
       (if 0 < best \<and> opp \<noteq> [] \<and> 0 < min (o_quantity ord) (l_total_quantity (snd (hd opp)))
        then [\<lparr>e_order_id = o_id ord, e_execution_id = execution_id_counter e + 1,
               e_symbol = o_symbol ord, e_side = Some (o_side ord), e_price = best,
               e_quantity = min (o_quantity ord) (l_total_quantity (snd (hd opp))),
               e_trader_id = o_trader_id ord\<rparr>]
        else [])"
    unfolding e1 by simp
  from 1 4 5 6 show ?thesis by blast
qed

lemma process_market_order_rest:
  assumes "\<not> book_mutex (book_of (o_symbol ord) e)"
  shows "\<exists>e'. process_market_order ord e = Inr e' \<and>
     execution_log e' = execution_log e @
       (let b = book_of (o_symbol ord) e;
            opp = (if o_side ord = BUY then asks b else bids b);
            best = (if o_side ord = BUY then best_ask b else best_bid b)
        in if 0 < best \<and> opp \<noteq> [] \<and>
              0 < min (o_quantity ord) (l_total_quantity (snd (hd opp)))
           then [\<lparr>e_order_id = o_id ord, e_execution_id = execution_id_counter e + 1,
                  e_symbol = o_symbol ord, e_side = Some (o_side ord), e_price = best,
                  e_quantity = min (o_quantity ord) (l_total_quantity (snd (hd opp))),
                  e_trader_id = o_trader_id ord\<rparr>]
           else []) \<and>
     sequence_number (book_of (o_symbol ord) e') = sequence_number (book_of (o_symbol ord) e) \<and>
     set (resting_orders (book_of (o_symbol ord) e'))
       \<subseteq> set (resting_orders (book_of (o_symbol ord) e))"
proof -
  obtain b e1 where g: "get_order_book (o_symbol ord) e = (b, e1)"
    by (cases "get_order_book (o_symbol ord) e")
  then have b: "book_of (o_symbol ord) e = b" by (simp add: book_of_def)
  with assms have m: "\<not> book_mutex b" by simp
  show ?thesis
  proof (cases "o_side ord = BUY")
    case True
    have "get_best_ask b = Inr (best_ask b)" "get_ask_levels 1 b = Inr (take 1 (map snd (asks b)))"
      using m by (simp_all add: getters_rest)
    from market_side_rest [where get_best = get_best_ask and get_levels = get_ask_levels
        and opp = "asks b", OF m g this] True show ?thesis
      by (simp add: process_market_order_def g b Let_def)
  next
    case False
    have "get_best_bid b = Inr (best_bid b)" "get_bid_levels 1 b = Inr (take 1 (map snd (bids b)))"
      using m by (simp_all add: getters_rest)
    from market_side_rest [where get_best = get_best_bid and get_levels = get_bid_levels
        and opp = "bids b", OF m g this] False show ?thesis
      by (simp add: process_market_order_def g b Let_def)
  qed
qed














section \<open>Market orders\<close>







section \<open>Levels are never empty\<close>

text \<open>C10: in every book reachable through the public operations, every level of the
  bid map and of the ask map holds at least one order; hence, in an engine that holds such
  a book, \<open>match_orders\<close> and \<open>process_market_order\<close> return: their reads of
  \<open>orders[0]\<close> of a best level are in bounds.\<close>

theorem reachable_levels_nonempty:
  assumes "reachable (book_of (o_symbol ord) e)"
  shows "list_all (\<lambda>l. l_orders l \<noteq> []) (all_levels (book_of (o_symbol ord) e)) \<and>
         (\<exists>e'. match_orders (o_symbol ord) e = Inr e') \<and>
         (\<exists>e'. process_market_order ord e = Inr e')"
proof -
  from assms have i: "book_inv (book_of (o_symbol ord) e)" by (rule reachable_inv)
  then have "list_all (\<lambda>l. l_orders l \<noteq> []) (all_levels (book_of (o_symbol ord) e))"
    by (simp add: book_inv_def level_inv_def list_all_iff)
  moreover from i have "\<exists>e'. match_orders (o_symbol ord) e = Inr e'"
    by (rule match_orders_returns)
  moreover from i process_market_order_rest [of ord e]
  have "\<exists>e'. process_market_order ord e = Inr e'"
    by (auto simp: book_inv_def)
  ultimately show ?thesis by blast
qed

lemma crossed_facts:
  "book_of ''AAPL'' crossed_engine = crossed_book"
  "best_bid crossed_book = 150" "best_ask crossed_book = 150"
  "o_symbol (market_order BUY 10 ''T'') = ''AAPL''"
  by code_simp+

lemma reachable_crossed_book: "reachable crossed_book"
  unfolding crossed_book_def by (intro reachable_add_order_body r_new)

text \<open>C10 on a reachable book with best bid and best ask both 150, where
  \<open>match_orders\<close> reads \<open>orders[0]\<close> of both best levels.\<close>

theorem reachable_levels_nonempty_witness:
  "reachable (book_of (o_symbol (market_order BUY 10 ''T'')) crossed_engine) \<and>
   get_best_bid (book_of ''AAPL'' crossed_engine) = Inr 150 \<and>
   get_best_ask (book_of ''AAPL'' crossed_engine) = Inr 150 \<and>
   list_all (\<lambda>l. l_orders l \<noteq> []) (all_levels (book_of ''AAPL'' crossed_engine)) \<and>
   (\<exists>e'. match_orders ''AAPL'' crossed_engine = Inr e') \<and>
   (\<exists>e'. process_market_order (market_order BUY 10 ''T'') crossed_engine = Inr e')"
proof -
  have r: "reachable (book_of (o_symbol (market_order BUY 10 ''T'')) crossed_engine)"
    by (simp add: crossed_facts reachable_crossed_book)
  have g: "get_best_bid (book_of ''AAPL'' crossed_engine) = Inr 150"
          "get_best_ask (book_of ''AAPL'' crossed_engine) = Inr 150"
    by code_simp+
  from reachable_levels_nonempty [OF r] r g show ?thesis
    by (simp add: crossed_facts)
qed

section \<open>No crossed book after an order\<close>

lemma match_orders_no_cross:
  assumes g: "get_order_book symb e = (b, e1)" and m: "\<not> book_mutex b"
    and c: "best_bid b \<le> 0 \<or> best_ask b \<le> 0 \<or> best_bid b < best_ask b"
  shows "match_orders symb e = Inr e1"
  using m c by (auto simp: match_orders_def g getters_rest)

lemma match_orders_cross:
  assumes g: "get_order_book symb e = (b, e1)" and m: "\<not> book_mutex b"
    and c: "0 < best_bid b" "0 < best_ask b" "best_ask b \<le> best_bid b"
    and r: "cross_ready b"
  shows "\<exists>e'. match_orders symb e = Inr e' \<and> book_of symb e' = cross_result b"
proof -
  from r obtain kb bs ka aks where s: "bids b = kb # bs" "asks b = ka # aks"
    by (cases "bids b"; cases "asks b") (auto simp: cross_ready_def)
  with r obtain x xs y ys where o: "l_orders (snd kb) = x # xs" "l_orders (snd ka) = y # ys"
    by (cases "l_orders (snd kb)"; cases "l_orders (snd ka)") (auto simp: cross_ready_def)
  from r s have "0 < min (l_total_quantity (snd kb)) (l_total_quantity (snd ka))"
    by (simp add: cross_ready_def min_def word_greater_zero_iff)
  then show ?thesis using m c s o
    by (simp add: match_orders_def g getters_rest take_1_levels first_order_id_def
                  cancel_order_rest Let_def split_beta cross_result_def)
qed

lemma not_crossed_update:
  "uncrossed_sides (bids b) (asks b) \<Longrightarrow> not_crossed (update_best_prices b)"
  by (auto simp: uncrossed_sides_def not_crossed_def update_best_prices_def Let_def)

lemma book_ok_uncrossed_sides:
  "book_ok b \<Longrightarrow> not_crossed b \<Longrightarrow> uncrossed_sides (bids b) (asks b)"
  by (cases "bids b"; cases "asks b")
     (auto simp: book_ok_def caches_ok_def not_crossed_def uncrossed_sides_def)

lemma remove_order_hd:
  assumes "remove_order i ls = Some (old, ls')" and "sorted_wrt P (map fst ls)"
  shows "ls' = [] \<or> fst (hd ls') = fst (hd ls) \<or> P (fst (hd ls)) (fst (hd ls'))"
proof (cases ls)
  case Nil
  with assms show ?thesis by simp
next
  case (Cons a rest)
  obtain p l where a: "a = (p, l)" by (cases a)
  from assms Cons a show ?thesis
    by (cases rest) (auto split: option.splits if_splits)
qed

lemma remove_order_keeps_uncrossed_bids:
  assumes "remove_order i bs = Some (old, bs')" and "sorted_wrt (>) (map fst bs)"
    and "uncrossed_sides bs aks"
  shows "uncrossed_sides bs' aks"
  using remove_order_hd [OF assms(1,2)] assms(1,3)
  by (cases bs) (auto simp: uncrossed_sides_def)

lemma remove_order_keeps_uncrossed_asks:
  assumes "remove_order i aks = Some (old, aks')" and "sorted_wrt (<) (map fst aks)"
    and "uncrossed_sides bs aks"
  shows "uncrossed_sides bs aks'"
  using remove_order_hd [OF assms(1,2)] assms(1,3)
  by (cases aks) (auto simp: uncrossed_sides_def)

lemma cancel_order_body_not_crossed:
  assumes "sorted_wrt (>) (map fst (bids b))" and "sorted_wrt (<) (map fst (asks b))"
    and "uncrossed_sides (bids b) (asks b)" and "not_crossed b"
  shows "not_crossed (cancel_order_body i b)"
proof (cases "remove_order i (bids b)")
  case None
  show ?thesis
  proof (cases "remove_order i (asks b)")
    case n: None
    with None assms(4) show ?thesis by (simp add: cancel_order_body_def)
  next
    case (Some r)
    obtain old ls where r: "r = (old, ls)" by (cases r)
    with Some have "uncrossed_sides (bids b) ls"
      using remove_order_keeps_uncrossed_asks assms(2,3) by blast
    then have "not_crossed (update_best_prices (b\<lparr>asks := ls\<rparr>))"
      by (intro not_crossed_update) simp
    with None Some r show ?thesis by (simp add: cancel_order_body_def)
  qed
next
  case (Some r)
  obtain old ls where r: "r = (old, ls)" by (cases r)
  with Some have "uncrossed_sides ls (asks b)"
    using remove_order_keeps_uncrossed_bids assms(1,3) by blast
  then have "not_crossed (update_best_prices (b\<lparr>bids := ls\<rparr>))"
    by (intro not_crossed_update) simp
  with Some r show ?thesis by (simp add: cancel_order_body_def)
qed

lemma level_ref_cases:
  "(level_ref pr p f ls = (p, f PriceLevel_default) # ls) \<or>
   (ls \<noteq> [] \<and> level_ref pr p f ls \<noteq> [] \<and> fst (hd (level_ref pr p f ls)) = fst (hd ls))"
  by (cases ls) (auto split: if_splits)

lemma level_ref_keys_positive:
  "list_all (\<lambda>k. 0 < k) (map fst ls) \<Longrightarrow> 0 < p \<Longrightarrow>
   list_all (\<lambda>k. 0 < k) (map fst (level_ref pr p f ls))"
  by (induction ls) auto

lemma erase_id_None: "list_all (\<lambda>x. o_id x \<noteq> i) os \<Longrightarrow> erase_id i os = None"
  by (induction os) auto

lemma remove_order_None:
  "list_all (\<lambda>x. o_id x \<noteq> i) (concat (map l_orders (map snd ls))) \<Longrightarrow> remove_order i ls = None"
  by (induction ls) (auto simp: erase_id_None)

lemma remove_order_head:
  "l_orders l = x # xs \<Longrightarrow>
   remove_order (o_id x) ((p, l) # rest) =
     Some (x, if xs = [] then rest
              else (p, l\<lparr>l_total_quantity := l_total_quantity l - o_quantity x,
                         l_orders := xs\<rparr>) # rest)"
  by simp

lemma add_order_body_sides:
  "bids (add_order_body ord b) =
     (if o_side ord = BUY
      then level_ref (>) (o_price ord)
             (push_order (ord\<lparr>o_id := sequence_number b + 1\<rparr>) (o_price ord) (o_quantity ord))
             (bids b)
      else bids b)"
  "asks (add_order_body ord b) =
     (if o_side ord = BUY then asks b
      else level_ref (<) (o_price ord)
             (push_order (ord\<lparr>o_id := sequence_number b + 1\<rparr>) (o_price ord) (o_quantity ord))
             (asks b))"
  by (simp_all add: add_order_body_def Let_def)

lemma add_order_body_caches:
  "caches_ok (add_order_body ord b)"
  by (simp add: add_order_body_def Let_def caches_ok_def update_best_prices_def)

lemma push_default:
  "push_order x p q PriceLevel_default = \<lparr>l_price = p, l_total_quantity = q, l_orders = [x]\<rparr>"
  by (simp add: push_order_def PriceLevel_default_def)

lemma sell_cross_resolved:
  assumes ok: "book_ok b" and nc: "not_crossed b" and sd: "o_side ord \<noteq> BUY"
    and q: "o_quantity ord \<noteq> 0"
    and c: "0 < best_bid (add_order_body ord b)" "0 < best_ask (add_order_body ord b)"
           "best_ask (add_order_body ord b) \<le> best_bid (add_order_body ord b)"
  shows "cross_ready (add_order_body ord b) \<and> not_crossed (cross_result (add_order_body ord b))"
proof -
  let ?b1 = "add_order_body ord b"
  let ?new = "ord\<lparr>o_id := sequence_number b + 1\<rparr>"
  let ?f = "push_order ?new (o_price ord) (o_quantity ord)"
  have bids1: "bids ?b1 = bids b" and asks1: "asks ?b1 = level_ref (<) (o_price ord) ?f (asks b)"
    using sd by (simp_all add: add_order_body_sides)
  have ca: "caches_ok ?b1" by (rule add_order_body_caches)
  from c(1) ca bids1 obtain pb lb bs where B: "bids b = (pb, lb) # bs"
    by (cases "bids b") (auto simp: caches_ok_def)
  from ok nc have us: "uncrossed_sides (bids b) (asks b)" by (rule book_ok_uncrossed_sides)
  from ok B have srt: "sorted_wrt (>) (map fst (bids b))" by (simp add: book_ok_def)
  from level_ref_cases [of "(<)" "o_price ord" ?f "asks b"]
  have front: "asks ?b1 = (o_price ord, ?f PriceLevel_default) # asks b"
  proof
    assume "level_ref (<) (o_price ord) ?f (asks b) = (o_price ord, ?f PriceLevel_default) # asks b"
    with asks1 show ?thesis by simp
  next
    assume a: "asks b \<noteq> [] \<and> level_ref (<) (o_price ord) ?f (asks b) \<noteq> [] \<and>
               fst (hd (level_ref (<) (o_price ord) ?f (asks b))) = fst (hd (asks b))"
    with ca asks1 have "best_ask ?b1 = fst (hd (asks b))" by (simp add: caches_ok_def)
    moreover from ca bids1 B have "best_bid ?b1 = pb" by (simp add: caches_ok_def)
    moreover from us a B have "pb < fst (hd (asks b))" by (simp add: uncrossed_sides_def)
    ultimately show ?thesis using c(3) by simp
  qed
  from ok B obtain x xs where X: "l_orders lb = x # xs" and T: "l_total_quantity lb \<noteq> 0"
    by (cases "l_orders lb") (auto simp: book_ok_def all_levels_def)
  define bs' where "bs' = (if xs = [] then bs
      else (pb, lb\<lparr>l_total_quantity := l_total_quantity lb - o_quantity x, l_orders := xs\<rparr>) # bs)"
  have r1: "remove_order (o_id x) (bids ?b1) = Some (x, bs')"
    unfolding bids1 B bs'_def using X by (rule remove_order_head)
  then have c1: "cancel_order_body (o_id x) ?b1 = update_best_prices (?b1\<lparr>bids := bs'\<rparr>)"
    by (simp add: cancel_order_body_def)
  from ok B X have "list_all (\<lambda>y. o_id y \<noteq> sequence_number b + 1)
                      (concat (map l_orders (map snd bs')))"
    by (auto simp: book_ok_def resting_orders_def all_levels_def bs'_def)
  then have r2: "remove_order (sequence_number b + 1) bs' = None" by (rule remove_order_None)
  have r3: "remove_order (sequence_number b + 1) (asks ?b1) = Some (?new, asks b)"
    unfolding front by (simp add: push_default)
  have c2: "cancel_order_body (sequence_number b + 1) (update_best_prices (?b1\<lparr>bids := bs'\<rparr>))
            = update_best_prices ((update_best_prices (?b1\<lparr>bids := bs'\<rparr>))\<lparr>asks := asks b\<rparr>)"
    using r2 r3 by (simp add: cancel_order_body_def)
  from r1 srt us have "uncrossed_sides bs' (asks b)"
    unfolding bids1 by (rule remove_order_keeps_uncrossed_bids)
  then have "not_crossed (update_best_prices ((update_best_prices (?b1\<lparr>bids := bs'\<rparr>))\<lparr>asks := asks b\<rparr>))"
    by (intro not_crossed_update) simp
  with c1 c2 have "not_crossed (cancel_order_body (o_id ?new) (cancel_order_body (o_id x) ?b1))"
    by simp
  then show ?thesis using q bids1 B front X T
    by (simp add: cross_ready_def cross_result_def push_default)
qed


lemma buy_cross_resolved:
  assumes ok: "book_ok b" and nc: "not_crossed b" and sd: "o_side ord = BUY"
    and q: "o_quantity ord \<noteq> 0"
    and c: "0 < best_bid (add_order_body ord b)" "0 < best_ask (add_order_body ord b)"
           "best_ask (add_order_body ord b) \<le> best_bid (add_order_body ord b)"
  shows "cross_ready (add_order_body ord b) \<and> not_crossed (cross_result (add_order_body ord b))"
proof -
  let ?b1 = "add_order_body ord b"
  let ?new = "ord\<lparr>o_id := sequence_number b + 1\<rparr>"
  let ?f = "push_order ?new (o_price ord) (o_quantity ord)"
  have asks1: "asks ?b1 = asks b" and bids1: "bids ?b1 = level_ref (>) (o_price ord) ?f (bids b)"
    using sd by (simp_all add: add_order_body_sides)
  have ca: "caches_ok ?b1" by (rule add_order_body_caches)
  from c(2) ca asks1 obtain pa la aks where A: "asks b = (pa, la) # aks"
    by (cases "asks b") (auto simp: caches_ok_def)
  from ok nc have us: "uncrossed_sides (bids b) (asks b)" by (rule book_ok_uncrossed_sides)
  from ok have srt: "sorted_wrt (>) (map fst (bids b))" "sorted_wrt (<) (map fst (asks b))"
    by (simp_all add: book_ok_def)
  from level_ref_cases [of "(>)" "o_price ord" ?f "bids b"]
  have front: "bids ?b1 = (o_price ord, ?f PriceLevel_default) # bids b"
  proof
    assume "level_ref (>) (o_price ord) ?f (bids b) = (o_price ord, ?f PriceLevel_default) # bids b"
    with bids1 show ?thesis by simp
  next
    assume a: "bids b \<noteq> [] \<and> level_ref (>) (o_price ord) ?f (bids b) \<noteq> [] \<and>
               fst (hd (level_ref (>) (o_price ord) ?f (bids b))) = fst (hd (bids b))"
    with ca bids1 have "best_bid ?b1 = fst (hd (bids b))" by (simp add: caches_ok_def)
    moreover from ca asks1 A have "best_ask ?b1 = pa" by (simp add: caches_ok_def)
    moreover from us a A have "fst (hd (bids b)) < pa" by (simp add: uncrossed_sides_def)
    ultimately show ?thesis using c(3) by simp
  qed
  from ok A obtain y ys where Y: "l_orders la = y # ys" and T: "l_total_quantity la \<noteq> 0"
    by (cases "l_orders la") (auto simp: book_ok_def all_levels_def)
  have "remove_order (sequence_number b + 1) (bids ?b1) = Some (?new, bids b)"
    unfolding front by (simp add: push_default)
  then have c1: "cancel_order_body (o_id ?new) ?b1 = update_best_prices (?b1\<lparr>bids := bids b\<rparr>)"
    by (simp add: cancel_order_body_def)
  let ?c1 = "update_best_prices (?b1\<lparr>bids := bids b\<rparr>)"
  have s1: "bids ?c1 = bids b" "asks ?c1 = asks b" using asks1 by simp_all
  from us have "not_crossed ?c1" by (intro not_crossed_update) (simp add: asks1)
  with srt us have "not_crossed (cancel_order_body (o_id y) ?c1)"
    by (intro cancel_order_body_not_crossed) (simp_all add: s1 asks1)
  with c1 have "not_crossed (cancel_order_body (o_id y) (cancel_order_body (o_id ?new) ?b1))"
    by simp
  then show ?thesis using q asks1 A front Y T
    by (simp add: cross_ready_def cross_result_def push_default)
qed

lemma add_order_body_heads_nonneg:
  assumes ok: "book_ok b" and p: "0 < o_price ord"
  shows "(best_bid (add_order_body ord b) = 0 \<or> 0 < best_bid (add_order_body ord b)) \<and>
         (best_ask (add_order_body ord b) = 0 \<or> 0 < best_ask (add_order_body ord b))"
proof -
  let ?b1 = "add_order_body ord b"
  from ok have k: "list_all (\<lambda>k. 0 < k) (map fst (bids b))" "list_all (\<lambda>k. 0 < k) (map fst (asks b))"
    by (simp_all add: book_ok_def)
  from k p have "list_all (\<lambda>k. 0 < k) (map fst (bids ?b1))" "list_all (\<lambda>k. 0 < k) (map fst (asks ?b1))"
    by (simp_all add: add_order_body_sides level_ref_keys_positive)
  then have "bids ?b1 \<noteq> [] \<Longrightarrow> 0 < fst (hd (bids ?b1))" "asks ?b1 \<noteq> [] \<Longrightarrow> 0 < fst (hd (asks ?b1))"
    by (simp_all add: list_all_iff)
  with add_order_body_caches [of ord b] show ?thesis
    by (auto simp: caches_ok_def)
qed

lemma limit_order_resolved:
  assumes ok: "book_ok b" and nc: "not_crossed b" and p: "0 < o_price ord"
    and q: "o_quantity ord \<noteq> 0"
  shows "(if 0 < best_bid (add_order_body ord b) \<and> 0 < best_ask (add_order_body ord b) \<and>
             best_ask (add_order_body ord b) \<le> best_bid (add_order_body ord b)
          then cross_ready (add_order_body ord b) \<and> not_crossed (cross_result (add_order_body ord b))
          else not_crossed (add_order_body ord b))"
proof (cases "0 < best_bid (add_order_body ord b) \<and> 0 < best_ask (add_order_body ord b) \<and>
             best_ask (add_order_body ord b) \<le> best_bid (add_order_body ord b)")
  case True
  then show ?thesis
    using sell_cross_resolved [OF ok nc _ q] buy_cross_resolved [OF ok nc _ q]
    by (cases "o_side ord = BUY") simp_all
next
  case False
  with add_order_body_heads_nonneg [OF ok p] have nc1: "not_crossed (add_order_body ord b)"
    unfolding not_crossed_def by linarith
  show ?thesis by (simp only: False if_False nc1)
qed


lemma process_market_order_book:
  assumes "\<not> book_mutex (book_of (o_symbol ord) e)"
  shows "\<exists>e'. process_market_order ord e = Inr e' \<and>
     (book_of (o_symbol ord) e' = book_of (o_symbol ord) e \<or>
      (\<exists>i. book_of (o_symbol ord) e' = cancel_order_body i (book_of (o_symbol ord) e)))"
proof -
  obtain b e1 where g: "get_order_book (o_symbol ord) e = (b, e1)"
    by (cases "get_order_book (o_symbol ord) e")
  then have b: "book_of (o_symbol ord) e = b" by (simp add: book_of_def)
  from g have "e1 = snd (get_order_book (o_symbol ord) e)" by simp
  with b have bk: "book_of (o_symbol ord) e1 = b" by simp
  from assms b have m: "\<not> book_mutex b" by simp
  show ?thesis
  proof (cases "o_side ord = BUY")
    case True
    have "get_best_ask b = Inr (best_ask b)" "get_ask_levels 1 b = Inr (take 1 (map snd (asks b)))"
      using m by (simp_all add: getters_rest)
    from market_take_rest [where get_best = get_best_ask and get_levels = get_ask_levels
        and opp = "asks b" and e = e1 and ord = ord, OF m this] True
    show ?thesis by (auto simp: process_market_order_def g b bk)
  next
    case False
    have "get_best_bid b = Inr (best_bid b)" "get_bid_levels 1 b = Inr (take 1 (map snd (bids b)))"
      using m by (simp_all add: getters_rest)
    from market_take_rest [where get_best = get_best_bid and get_levels = get_bid_levels
        and opp = "bids b" and e = e1 and ord = ord, OF m this] False
    show ?thesis by (auto simp: process_market_order_def g b bk)
  qed
qed

lemma process_limit_order_book:
  assumes ok: "book_ok (book_of (o_symbol ord) e)" and nc: "not_crossed (book_of (o_symbol ord) e)"
    and ty: "o_type ord \<noteq> MARKET" and p: "0 < o_price ord" and q: "o_quantity ord \<noteq> 0"
  shows "\<exists>e'. process_order ord e = Inr e' \<and> not_crossed (book_of (o_symbol ord) e')"
proof -
  obtain b e1 where g: "get_order_book (o_symbol ord) e = (b, e1)"
    by (cases "get_order_book (o_symbol ord) e")
  then have b: "book_of (o_symbol ord) e = b" by (simp add: book_of_def)
  from ok b have m: "\<not> book_mutex b" by (simp add: book_ok_def)
  let ?b1 = "add_order_body ord b"
  let ?e2 = "set_order_book (o_symbol ord) ?b1 e1"
  have g2: "get_order_book (o_symbol ord) ?e2 = (?b1, ?e2)"
    by (simp add: get_order_book_def set_order_book_def)
  from m have m1: "\<not> book_mutex ?b1" by simp
  have po: "process_order ord e =
      bind_err (match_orders (o_symbol ord) ?e2) (\<lambda>e1. Inr (order_status_callback ord e1))"
    using ty m by (simp add: process_order_def g add_order_rest)
  from ok nc b have r: "(if 0 < best_bid ?b1 \<and> 0 < best_ask ?b1 \<and> best_ask ?b1 \<le> best_bid ?b1
          then cross_ready ?b1 \<and> not_crossed (cross_result ?b1)
          else not_crossed ?b1)"
    using limit_order_resolved [OF _ _ p q, of b] by simp
  show ?thesis
  proof (cases "0 < best_bid ?b1 \<and> 0 < best_ask ?b1 \<and> best_ask ?b1 \<le> best_bid ?b1")
    case True
    with r have cr: "cross_ready ?b1" and n: "not_crossed (cross_result ?b1)" by simp_all
    from True match_orders_cross [OF g2 m1 _ _ _ cr]
    obtain e' where "match_orders (o_symbol ord) ?e2 = Inr e'"
      and "book_of (o_symbol ord) e' = cross_result ?b1" by blast
    with n show ?thesis by (simp add: po)
  next
    case False
    then have "best_bid ?b1 \<le> 0 \<or> best_ask ?b1 \<le> 0 \<or> best_bid ?b1 < best_ask ?b1" by linarith
    from match_orders_no_cross [OF g2 m1 this] r False show ?thesis
      by (simp add: po del: not_less not_le)
  qed
qed

text \<open>C1, as stated: after the engine has processed any order on any reachable book,
  \<open>get_best_bid() < get_best_ask()\<close> or one cached best price is 0. On a new engine, a
  limit BUY of quantity 0 at 10 followed by a limit SELL of 5 at 9 leaves best bid 10 and
  best ask 9: \<open>match_orders\<close> computes \<open>match_quantity = 0\<close> and removes nothing.\<close>

theorem zero_quantity_cross_remains:
  "\<not> isl (engine_after [limit_order BUY 10 0 ''A'', limit_order SELL 9 5 ''B'']) \<and>
   get_best_bid (book_of ''AAPL''
     (projr (engine_after [limit_order BUY 10 0 ''A'', limit_order SELL 9 5 ''B'']))) = Inr 10 \<and>
   get_best_ask (book_of ''AAPL''
     (projr (engine_after [limit_order BUY 10 0 ''A'', limit_order SELL 9 5 ''B'']))) = Inr 9 \<and>
   \<not> not_crossed (book_of ''AAPL''
     (projr (engine_after [limit_order BUY 10 0 ''A'', limit_order SELL 9 5 ''B''])))"
  by code_simp

text \<open>\<open>match_orders\<close> makes one pass. On a book that \<open>add_order\<close> alone has crossed
  twice over, the order that the engine processes next removes one order from each side and
  the book stays crossed.\<close>

lemma single_pass_leaves_cross:
  "\<not> isl (process_order ((limit_order BUY 8 5 ''E'')\<lparr>o_id := 1\<rparr>)
            (set_order_book ''AAPL'' doubly_crossed_book MatchingEngine_new)) \<and>
   \<not> not_crossed (book_of ''AAPL'' (projr (process_order ((limit_order BUY 8 5 ''E'')\<lparr>o_id := 1\<rparr>)
            (set_order_book ''AAPL'' doubly_crossed_book MatchingEngine_new))))"
  by code_simp

text \<open>On a well-formed book that is not crossed, one pass of \<open>match_orders\<close> is
  enough: a crossing order opens a level of its own at the front of its side, and the pass
  removes that order together with the first order of the opposite best level.\<close>

lemma process_order_book_ok:
  assumes "book_ok (book_of (o_symbol ord) e)" and "not_crossed (book_of (o_symbol ord) e)"
    and "o_type ord = MARKET \<or> (0 < o_price ord \<and> o_quantity ord \<noteq> 0)"
  shows "\<exists>e'. process_order ord e = Inr e' \<and> not_crossed (book_of (o_symbol ord) e')"
proof (cases "o_type ord = MARKET")
  case True
  let ?b = "book_of (o_symbol ord) e"
  from assms(1) have m: "\<not> book_mutex ?b"
    and srt: "sorted_wrt (>) (map fst (bids ?b))" "sorted_wrt (<) (map fst (asks ?b))"
    by (simp_all add: book_ok_def)
  from assms(1,2) have us: "uncrossed_sides (bids ?b) (asks ?b)" by (rule book_ok_uncrossed_sides)
  from process_market_order_book [OF m]
  obtain e' where 1: "process_market_order ord e = Inr e'"
    and 2: "book_of (o_symbol ord) e' = ?b \<or> (\<exists>i. book_of (o_symbol ord) e' = cancel_order_body i ?b)"
    by blast
  from 2 have "not_crossed (book_of (o_symbol ord) e')"
    using assms(2) cancel_order_body_not_crossed [OF srt us assms(2)] by auto
  with 1 True show ?thesis by (simp add: process_order_def)
next
  case False
  with assms show ?thesis by (intro process_limit_order_book) simp_all
qed


lemma level_ref_keys:
  "set (map fst (level_ref pr p f ls)) \<subseteq> insert p (set (map fst ls))"
proof (induction ls)
  case Nil
  then show ?case by simp
next
  case (Cons a ls)
  obtain k l where a: "a = (k, l)" by (cases a)
  from Cons show ?case unfolding a by (cases "k = p"; cases "pr p k") auto
qed

lemma level_ref_sorted_desc:
  "sorted_wrt (>) (map fst ls) \<Longrightarrow> sorted_wrt (>) (map fst (level_ref (>) p f ls))"
proof (induction ls)
  case Nil
  then show ?case by simp
next
  case (Cons a ls)
  obtain k l where a: "a = (k, l)" by (cases a)
  from Cons.prems a have s: "sorted_wrt (>) (map fst ls)" and h: "\<forall>y\<in>set (map fst ls). y < k"
    by simp_all
  show ?case
  proof (cases "k = p")
    case True
    with Cons.prems a show ?thesis by simp
  next
    case k: False
    show ?thesis
    proof (cases "p > k")
      case True
      with h have "\<forall>y\<in>set (map fst ls). y < p" by fastforce
      with True k s h a show ?thesis by simp
    next
      case False
      with k have "p < k" by simp
      with h level_ref_keys [of "(>)" p f ls]
      have "\<forall>y\<in>set (map fst (level_ref (>) p f ls)). y < k" by blast
      with False k a Cons.IH [OF s] show ?thesis by simp
    qed
  qed
qed

lemma level_ref_sorted_asc:
  "sorted_wrt (<) (map fst ls) \<Longrightarrow> sorted_wrt (<) (map fst (level_ref (<) p f ls))"
proof (induction ls)
  case Nil
  then show ?case by simp
next
  case (Cons a ls)
  obtain k l where a: "a = (k, l)" by (cases a)
  from Cons.prems a have s: "sorted_wrt (<) (map fst ls)" and h: "\<forall>y\<in>set (map fst ls). k < y"
    by simp_all
  show ?case
  proof (cases "k = p")
    case True
    with Cons.prems a show ?thesis by simp
  next
    case k: False
    show ?thesis
    proof (cases "p < k")
      case True
      with h have "\<forall>y\<in>set (map fst ls). p < y" by fastforce
      with True k s h a show ?thesis by simp
    next
      case False
      with k have "k < p" by simp
      with h level_ref_keys [of "(<)" p f ls]
      have "\<forall>y\<in>set (map fst (level_ref (<) p f ls)). k < y" by blast
      with False k a Cons.IH [OF s] show ?thesis by simp
    qed
  qed
qed


lemma remove_order_keys:
  "remove_order i ls = Some (old, ls') \<Longrightarrow> set (map fst ls') \<subseteq> set (map fst ls)"
proof (induction ls arbitrary: ls')
  case Nil
  then show ?case by simp
next
  case (Cons a ls)
  obtain k l where a: "a = (k, l)" by (cases a)
  show ?case
  proof (cases "erase_id i (l_orders l)")
    case None
    with Cons.prems a obtain r where r: "remove_order i ls = Some (old, r)" "ls' = (k, l) # r"
      by auto
    from Cons.IH [OF r(1)] r(2) a show ?thesis by auto
  next
    case (Some x)
    obtain y os where "x = (y, os)" by (cases x)
    with Some Cons.prems a show ?thesis by (auto split: if_splits)
  qed
qed

lemma remove_order_sorted:
  "remove_order i ls = Some (old, ls') \<Longrightarrow> sorted_wrt P (map fst ls) \<Longrightarrow>
   sorted_wrt P (map fst ls')"
proof (induction ls arbitrary: ls')
  case Nil
  then show ?case by simp
next
  case (Cons a ls)
  obtain k l where a: "a = (k, l)" by (cases a)
  from Cons.prems(2) a have s: "sorted_wrt P (map fst ls)" and h: "\<forall>y\<in>set (map fst ls). P k y"
    by simp_all
  show ?case
  proof (cases "erase_id i (l_orders l)")
    case None
    with Cons.prems a obtain r where r: "remove_order i ls = Some (old, r)" "ls' = (k, l) # r"
      by auto
    from Cons.IH [OF r(1) s] have "sorted_wrt P (map fst r)" .
    moreover from remove_order_keys [OF r(1)] h have "\<forall>y\<in>set (map fst r). P k y"
      by blast
    ultimately show ?thesis using r(2) by simp
  next
    case (Some x)
    obtain y os where "x = (y, os)" by (cases x)
    with Some Cons.prems(1) a s h show ?thesis by (auto split: if_splits)
  qed
qed

lemma add_order_body_sorted: "sides_sorted b \<Longrightarrow> sides_sorted (add_order_body ord b)"
  by (simp add: sides_sorted_def add_order_body_sides add_order_body_caches
                level_ref_sorted_desc level_ref_sorted_asc)

lemma update_best_prices_caches: "caches_ok (update_best_prices b)"
  by (simp add: caches_ok_def update_best_prices_def Let_def)

lemma cancel_order_body_sorted: "sides_sorted b \<Longrightarrow> sides_sorted (cancel_order_body i b)"
  by (auto simp: sides_sorted_def cancel_order_body_def update_best_prices_caches
           dest: remove_order_sorted split: option.splits)

lemma reachable_sorted: "reachable b \<Longrightarrow> sides_sorted b"
proof (induction rule: reachable.induct)
  case (r_new symb)
  then show ?case by (simp add: sides_sorted_def OrderBook_new_def caches_ok_def)
next
  case (r_add b ord b')
  then show ?case by (auto dest!: add_order_result simp: add_order_body_sorted)
next
  case (r_cancel b i b')
  then show ?case by (auto dest!: cancel_order_result simp: cancel_order_body_sorted)
next
  case (r_modify b i p q b')
  then show ?case by (auto dest!: modify_order_result)
next
  case (r_set_last_price b p b')
  then show ?case
    by (auto simp: set_last_price_def acquire_def release_def sides_sorted_def caches_ok_def
                   update_best_prices_def Let_def split: if_splits)
next
  case (r_clear b b')
  then show ?case
    by (auto simp: clear_book_def acquire_def release_def sides_sorted_def caches_ok_def
                   update_best_prices_def Let_def split: if_splits)
next
  case (r_add_limit b p q sd b')
  then show ?case
    by (auto simp: add_limit_order_def acquire_def release_def sides_sorted_def caches_ok_def
                   update_best_prices_def Let_def level_ref_sorted_desc level_ref_sorted_asc
             split: if_splits)
qed


lemma reachable_book_ok: "reachable b \<Longrightarrow> well_priced b \<Longrightarrow> book_ok b"
  using reachable_inv [of b] reachable_sorted [of b]
  by (auto simp: book_ok_def book_inv_def sides_sorted_def well_priced_def level_inv_def
                 list_all_iff)

text \<open>C1, amended: for every reachable book that is not crossed, whose prices are
  positive, whose levels have totals other than 0 and in which no resting order has the id
  the book stamps next, and for every market order and every other order with a positive
  price and a quantity other than 0, \<open>process_order\<close> on the engine that holds the book
  returns and the book is not crossed afterwards.\<close>

theorem process_order_keeps_not_crossed:
  assumes "reachable (book_of (o_symbol ord) e)" and "well_priced (book_of (o_symbol ord) e)"
    and "not_crossed (book_of (o_symbol ord) e)"
    and "o_type ord = MARKET \<or> (0 < o_price ord \<and> o_quantity ord \<noteq> 0)"
  shows "\<exists>e'. process_order ord e = Inr e' \<and> not_crossed (book_of (o_symbol ord) e')"
  using reachable_book_ok [OF assms(1,2)] assms(3,4) by (rule process_order_book_ok)

lemma example_engine_facts:
  "o_symbol crossing_sell = ''AAPL''"
  "book_of ''AAPL'' example_engine = example_book"
  "well_priced example_book"
  "not_crossed example_book"
  "o_type crossing_sell = MARKET \<or> (0 < o_price crossing_sell \<and> o_quantity crossing_sell \<noteq> 0)"
  by code_simp+

lemma example_engine_run:
  "\<not> isl (process_order crossing_sell example_engine)"
  "level_totals (bids (book_of ''AAPL'' (projr (process_order crossing_sell example_engine)))) = [50]"
  "level_totals (asks (book_of ''AAPL'' (projr (process_order crossing_sell example_engine)))) = [30]"
  "map e_quantity (execution_log (projr (process_order crossing_sell example_engine))) = [40]"
  by code_simp+

text \<open>C1, amended, on the example book (bids of 100 and 50 at 150, ask of 30 at 151)
  and a SELL of 40 at 149: the hypotheses hold, the order crosses, one Execution is emitted,
  the first bid and the new ask are removed, and the book is not crossed.\<close>

theorem process_order_keeps_not_crossed_witness:
  "reachable (book_of (o_symbol crossing_sell) example_engine) \<and>
   well_priced (book_of (o_symbol crossing_sell) example_engine) \<and>
   not_crossed (book_of (o_symbol crossing_sell) example_engine) \<and>
   (o_type crossing_sell = MARKET \<or> (0 < o_price crossing_sell \<and> o_quantity crossing_sell \<noteq> 0)) \<and>
   (\<exists>e'. process_order crossing_sell example_engine = Inr e' \<and>
         not_crossed (book_of (o_symbol crossing_sell) e')) \<and>
   map e_quantity (execution_log (projr (process_order crossing_sell example_engine))) = [40] \<and>
   level_totals (bids (book_of ''AAPL'' (projr (process_order crossing_sell example_engine)))) = [50]"
proof -
  have h: "reachable (book_of (o_symbol crossing_sell) example_engine)"
          "well_priced (book_of (o_symbol crossing_sell) example_engine)"
          "not_crossed (book_of (o_symbol crossing_sell) example_engine)"
          "o_type crossing_sell = MARKET \<or> (0 < o_price crossing_sell \<and> o_quantity crossing_sell \<noteq> 0)"
    using reachable_example_book by (simp_all add: example_engine_facts)
  from process_order_keeps_not_crossed [OF h] h example_engine_run show ?thesis by blast
qed

section \<open>MatchingEngine::cancel\_order\<close>

lemma cancel_scan_eq:
  "cancel_scan i t queue temp found =
     (found \<or> (\<exists>x\<in>set queue. o_id x = i \<and> o_trader_id x = t),
      temp @ filter (\<lambda>x. \<not> (o_id x = i \<and> o_trader_id x = t)) queue)"
  by (induction queue arbitrary: temp found) auto

text \<open>C3, as stated: \<open>cancel_order(id, trader_id)\<close> returns true also for an order that
  rests in a book of the engine, and removes it from the book. It does not: after the
  worker has moved the order of trader T with id 1 from the queue into the AAPL book, the
  order rests there, \<open>cancel_order(1, T)\<close> returns false and the book is as before.\<close>

theorem cancel_resting_order_returns_false:
  "\<not> isl (engine_after [limit_order BUY 150 100 ''T'']) \<and>
   map o_id (resting_orders (book_of ''AAPL''
     (projr (engine_after [limit_order BUY 150 100 ''T''])))) = [1] \<and>
   map o_trader_id (resting_orders (book_of ''AAPL''
     (projr (engine_after [limit_order BUY 150 100 ''T''])))) = [''T''] \<and>
   fst (MatchingEngine_cancel_order 1 ''T''
     (projr (engine_after [limit_order BUY 150 100 ''T'']))) = False \<and>
   book_of ''AAPL'' (snd (MatchingEngine_cancel_order 1 ''T''
     (projr (engine_after [limit_order BUY 150 100 ''T'']))))
     = book_of ''AAPL'' (projr (engine_after [limit_order BUY 150 100 ''T'']))"
  by code_simp

text \<open>C3, amended: \<open>MatchingEngine::cancel_order(id, trader_id)\<close> returns true if and
  only if the submission queue holds an order with that id and that trader id; the queue
  loses exactly those orders, and the books are neither searched nor changed. For an id
  that is not in the queue, resting or unknown, it returns false.\<close>

theorem MatchingEngine_cancel_order_queue_only:
  "fst (MatchingEngine_cancel_order i t e) =
     (\<exists>x\<in>set (order_queue e). o_id x = i \<and> o_trader_id x = t) \<and>
   order_queue (snd (MatchingEngine_cancel_order i t e)) =
     filter (\<lambda>x. \<not> (o_id x = i \<and> o_trader_id x = t)) (order_queue e) \<and>
   order_books (snd (MatchingEngine_cancel_order i t e)) = order_books e"
  by (simp add: MatchingEngine_cancel_order_def cancel_scan_eq)

text \<open>C3, amended, at a queued order: submitted and not yet processed, the order of
  trader T with id 1 is cancelled and leaves the queue.\<close>

theorem MatchingEngine_cancel_order_queue_only_witness:
  "fst (MatchingEngine_cancel_order 1 ''T''
          (submit_all [limit_order BUY 150 100 ''T''] (add_symbol ''AAPL'' MatchingEngine_new))) \<and>
   order_queue (snd (MatchingEngine_cancel_order 1 ''T''
          (submit_all [limit_order BUY 150 100 ''T''] (add_symbol ''AAPL'' MatchingEngine_new)))) = []"
  using MatchingEngine_cancel_order_queue_only
          [of 1 "''T''" "submit_all [limit_order BUY 150 100 ''T''] (add_symbol ''AAPL'' MatchingEngine_new)"]
  by (simp add: submit_order_def generate_order_id_def add_symbol_def MatchingEngine_new_def
                limit_order_def)

section \<open>OrderManager::place\_order and the risk checks\<close>

text \<open>C4: an order whose notional \<open>price \<times> quantity\<close> exceeds \<open>max_position_value\<close> is
  not submitted and \<open>place_order\<close> returns 0. The code at the input of the repository's
  own test (limits 1000 / 10000 / 1000, BUY 20 at 1000, notional 20000): the order is
  submitted, it is in the engine's queue with id 1, and 1 is returned.
  \<open>check_risk_limits\<close> never reads \<open>max_position_value\<close>.\<close>

theorem place_order_accepts_excess_notional:
  "\<not> isl (place_order big_value test_manager) \<and>
   fst (projr (place_order big_value test_manager)) = 1 \<and>
   order_queue (matching_engine (snd (projr (place_order big_value test_manager))))
     = [big_value\<lparr>o_id := 1\<rparr>] \<and>
   o_price big_value * real (unat (o_quantity big_value))
     > r_max_position_value (risk_limits test_manager)"
  by code_simp

text \<open>C9: when \<open>place_order\<close> rejects an order because a risk check fails, it returns 0
  and the manager (with it the active-order index, the engine with its books and queue,
  and the positions) is the one before the call.\<close>

theorem place_order_rejected_unchanged:
  "check_risk_limits ord m = Inr False \<Longrightarrow> place_order ord m = Inr (0, m)"
  by (simp add: place_order_def bind_err_def)

text \<open>C9 at scenario S5: with \<open>max_order_size = 100\<close>, an order of quantity 500 fails
  the check and is rejected.\<close>

theorem place_order_rejected_unchanged_witness:
  "check_risk_limits (limit_order BUY 150 500 ''T'')
     (set_risk_limits (RiskLimits_default\<lparr>r_max_order_size := 100\<rparr>) OrderManager_new) = Inr False \<and>
   place_order (limit_order BUY 150 500 ''T'')
     (set_risk_limits (RiskLimits_default\<lparr>r_max_order_size := 100\<rparr>) OrderManager_new)
   = Inr (0, set_risk_limits (RiskLimits_default\<lparr>r_max_order_size := 100\<rparr>) OrderManager_new)"
proof -
  have h: "check_risk_limits (limit_order BUY 150 500 ''T'')
     (set_risk_limits (RiskLimits_default\<lparr>r_max_order_size := 100\<rparr>) OrderManager_new) = Inr False"
    by (simp add: check_risk_limits_def check_position_limits_def bind_err_def get_position_def
          set_risk_limits_def OrderManager_new_def Position_default_def limit_order_def
          RiskLimits_default_def)
  show ?thesis using h place_order_rejected_unchanged [OF h] by simp
qed

section \<open>OrderManager::on\_execution\<close>

lemma on_execution_counters:
  "on_execution ex m = Inr m' \<Longrightarrow>
   daily_pnl m' = daily_pnl m \<and> max_drawdown m' = max_drawdown m \<and>
   peak_equity m' = peak_equity m"
  by (auto simp: on_execution_def update_position_def bind_err_def Let_def split: option.splits)


section \<open>MatchingEngine::match\_orders and the taker\<close>

text \<open>Whenever \<open>match_orders\<close> returns, it has emitted no Execution or one whose
  \<open>order_id\<close>, \<open>side\<close> and \<open>trader_id\<close> are as the constructor left them.\<close>

lemma match_orders_untagged:
  assumes r: "match_orders symb e = Inr e'"
  shows "execution_log e' = execution_log e \<or>
         (\<exists>x. execution_log e' = execution_log e @ [x] \<and>
              e_order_id x = 0 \<and> e_side x = None \<and> e_trader_id x = [])"
proof -
  obtain b e1 where g: "get_order_book symb e = (b, e1)" by (cases "get_order_book symb e")
  then have e1: "e1 = snd (get_order_book symb e)" by simp
  have l1: "execution_log e1 = execution_log e" unfolding e1 by simp
  have m: "\<not> book_mutex b"
  proof
    assume "book_mutex b"
    with r show False by (simp add: match_orders_def g get_best_bid_def locked_read_def)
  qed
  show ?thesis
  proof (cases "best_bid b \<le> 0 \<or> best_ask b \<le> 0 \<or> best_bid b < best_ask b")
    case True
    from match_orders_no_cross [OF g m True] r l1 show ?thesis by simp
  next
    case False
    then have c: "0 < best_bid b" "0 < best_ask b" "best_ask b \<le> best_bid b" by simp_all
    show ?thesis
    proof (cases "cross_ready b")
      case True
      then obtain kb bs ka aks where s: "bids b = kb # bs" "asks b = ka # aks"
        by (cases "bids b"; cases "asks b") (auto simp: cross_ready_def)
      with True obtain x xs y ys where o: "l_orders (snd kb) = x # xs" "l_orders (snd ka) = y # ys"
        by (cases "l_orders (snd kb)"; cases "l_orders (snd ka)") (auto simp: cross_ready_def)
      from True s have "0 < min (l_total_quantity (snd kb)) (l_total_quantity (snd ka))"
        by (simp add: cross_ready_def min_def word_greater_zero_iff)
      then have "match_orders symb e =
          Inr (execution_callback
                (Execution_default\<lparr>e_execution_id := execution_id_counter e1 + 1, e_symbol := symb,
                    e_price := (best_bid b + best_ask b) / 2,
                    e_quantity := min (l_total_quantity (snd kb)) (l_total_quantity (snd ka))\<rparr>)
                (set_order_book symb (cancel_order_body (o_id y) (cancel_order_body (o_id x) b))
                   (record_execution
                     (Execution_default\<lparr>e_execution_id := execution_id_counter e1 + 1,
                        e_symbol := symb, e_price := (best_bid b + best_ask b) / 2,
                        e_quantity := min (l_total_quantity (snd kb)) (l_total_quantity (snd ka))\<rparr>)
                     (snd (generate_execution_id e1)))))"
        using m c s o
        by (simp add: match_orders_def g getters_rest take_1_levels first_order_id_def
                      cancel_order_rest Let_def split_beta generate_execution_id_def)
      with r l1 show ?thesis by (auto simp: Execution_default_def)
    next
      case nr: False
      have "match_orders symb e = Inr e1 \<or> match_orders symb e = Inl OutOfBounds"
      proof (cases "bids b = [] \<or> asks b = []")
        case True
        then show ?thesis using m c
          by (auto simp: match_orders_def g getters_rest take_1_levels)
      next
        case False
        then obtain kb bs ka aks where s: "bids b = kb # bs" "asks b = ka # aks"
          by (cases "bids b"; cases "asks b") auto
        show ?thesis
        proof (cases "0 < min (l_total_quantity (snd kb)) (l_total_quantity (snd ka))")
          case False
          then show ?thesis using m c s
            by (auto simp: match_orders_def g getters_rest take_1_levels Let_def)
        next
          case True
          then have "l_total_quantity (snd kb) \<noteq> 0" "l_total_quantity (snd ka) \<noteq> 0"
            by (auto simp: min_def word_greater_zero_iff split: if_splits)
          with nr s have "l_orders (snd kb) = [] \<or> l_orders (snd ka) = []"
            by (auto simp: cross_ready_def)
          then show ?thesis using m c s True
            by (cases "l_orders (snd kb)")
               (auto simp: match_orders_def g getters_rest take_1_levels first_order_id_def
                           cancel_order_rest Let_def split_beta)
        qed
      qed
      with r l1 show ?thesis by auto
    qed
  qed
qed

text \<open>C5: the Execution of a limit-limit cross carries the id, the side and the trader
  id of the order just submitted. The code at scenario S1 (BUY 100 at 150 by A, then SELL
  100 at 150 by B, which the engine stamps with ids 1 and 2): one Execution of 100 at 150
  whose \<open>order_id\<close> is 0, whose \<open>trader_id\<close> is empty and whose \<open>side\<close> was never
  assigned, where the claim has 2, B and SELL. \<open>process_market_order\<close> assigns the three
  members; \<open>match_orders\<close> does not.\<close>

theorem match_orders_execution_untagged:
  "\<not> isl (engine_after [limit_order BUY 150 100 ''A'', limit_order SELL 150 100 ''B'']) \<and>
   execution_log (projr (engine_after
       [limit_order BUY 150 100 ''A'', limit_order SELL 150 100 ''B''])) =
     [\<lparr>e_order_id = 0, e_execution_id = 1, e_symbol = ''AAPL'', e_side = None,
       e_price = 150, e_quantity = 100, e_trader_id = []\<rparr>] \<and>
   map o_id (order_status_log (projr (engine_after
       [limit_order BUY 150 100 ''A'', limit_order SELL 150 100 ''B'']))) = [1, 2]"
  by code_simp

section \<open>OrderBook::modify\_order\<close>

text \<open>The body of \<open>modify_order\<close> and \<open>cancel_order\<close> followed by \<open>add_order\<close>
  compute the same sides, cached best prices and sequence number.\<close>

lemma cancel_order_body_found:
  "find_and_remove i b = Some (old, b2) \<Longrightarrow> cancel_order_body i b = update_best_prices b2"
  by (auto simp: find_and_remove_def cancel_order_body_def split: option.splits)

lemma add_order_body_seq [simp]:
  "sequence_number (add_order_body ord b) = sequence_number b + 1"
  by (simp add: add_order_body_def Let_def)

lemma modify_body_agrees:
  assumes "find_and_remove i b = Some (old, b2)"
  shows "bids (add_order_body ord b2) = bids (add_order_body ord (cancel_order_body i b)) \<and>
         asks (add_order_body ord b2) = asks (add_order_body ord (cancel_order_body i b)) \<and>
         best_bid (add_order_body ord b2) = best_bid (add_order_body ord (cancel_order_body i b)) \<and>
         best_ask (add_order_body ord b2) = best_ask (add_order_body ord (cancel_order_body i b)) \<and>
         sequence_number (add_order_body ord b2)
           = sequence_number (add_order_body ord (cancel_order_body i b))"
proof -
  let ?c = "cancel_order_body i b"
  from assms have c: "?c = update_best_prices b2" by (rule cancel_order_body_found)
  have s: "bids (add_order_body ord b2) = bids (add_order_body ord ?c)"
          "asks (add_order_body ord b2) = asks (add_order_body ord ?c)"
    unfolding c by (simp_all add: add_order_body_sides)
  with add_order_body_caches [of ord b2] add_order_body_caches [of ord ?c]
  have "best_bid (add_order_body ord b2) = best_bid (add_order_body ord ?c)"
       "best_ask (add_order_body ord b2) = best_ask (add_order_body ord ?c)"
    by (simp_all add: caches_ok_def)
  with s show ?thesis unfolding c by simp
qed


lemma modify_order_found_deadlocks:
  "\<not> book_mutex b \<Longrightarrow> find_and_remove i b = Some r \<Longrightarrow> modify_order i p q b = Inl Deadlock"
  by (simp add: modify_order_rest)

lemma modify_order_absent_unchanged:
  "\<not> book_mutex b \<Longrightarrow> find_and_remove i b = None \<Longrightarrow> modify_order i p q b = Inr b"
  by (simp add: modify_order_rest)

text \<open>C8: for a resting order with id i, \<open>modify_order(i, new_price, new_quantity)\<close>
  yields the book that \<open>cancel_order(i)\<close> followed by \<open>add_order\<close> of the changed order
  yields. The code on the book that holds one order, BUY 100 at 150 with id 1:
  \<open>modify_order(1, 151, 50)\<close> finds the order and calls \<open>add_order\<close> while it holds
  \<open>book_mutex_\<close>, which \<open>add_order\<close> locks again, so the call yields no book; the
  cancel followed by the add returns one.\<close>

theorem modify_order_resting_deadlocks:
  "\<not> isl (add_order (limit_order BUY 150 100 ''A'') (OrderBook_new ''AAPL'')) \<and>
   map o_id (resting_orders (projr
     (add_order (limit_order BUY 150 100 ''A'') (OrderBook_new ''AAPL'')))) = [1] \<and>
   modify_order 1 151 50 (projr
     (add_order (limit_order BUY 150 100 ''A'') (OrderBook_new ''AAPL''))) = Inl Deadlock \<and>
   \<not> isl (bind_err
     (cancel_order 1 (projr (add_order (limit_order BUY 150 100 ''A'') (OrderBook_new ''AAPL''))))
     (add_order ((limit_order BUY 150 100 ''A'')\<lparr>o_price := 151, o_quantity := 50\<rparr>)))"
  by code_simp

end
